theory Spec2Isabelle
  imports Complex_Main
begin

section \<open>Data model of model.js\<close>

text \<open>
  JavaScript numbers are modelled as mathematical reals: arithmetic is exact, and
  \<open>Math.sqrt\<close> is the real square root. Objects have identity (\<open>===\<close>,
  \<open>indexOf\<close>), so triangles live in an explicit store and the game refers to them
  by address.
\<close>

type_synonym ref = nat

text \<open>A colour is an RGBA array of four numbers; it is only ever read by component.\<close>

type_synonym color = "real \<times> real \<times> real \<times> real"

text \<open>\<open>class Triangle extends GameObject\<close>: fields \<open>x\<close>, \<open>y\<close>, \<open>size\<close>, \<open>color\<close>.\<close>

record Triangle =
  t_x :: real
  t_y :: real
  t_size :: real
  t_color :: color

text \<open>The three strings stored in \<open>gameState\<close>: \<open>'playing'\<close>, \<open>'won'\<close>, \<open>'lost'\<close>.\<close>

datatype GameState = Playing | Won | Lost

text \<open>
  \<open>class GameModel\<close>. \<open>keys\<close> is the object used as a dictionary of pressed keys
  (a missing key reads as \<open>undefined\<close>, which is falsy). \<open>player\<close> is \<open>null\<close>
  (\<open>None\<close>) until \<open>createGameObjects\<close> has run. \<open>heap\<close> is the store of triangle
  objects and \<open>fresh\<close> the next address \<open>new Triangle\<close> hands out.
\<close>

record GameModel =
  canvasWidth :: real
  canvasHeight :: real
  gameObjects :: "ref list"
  gameState :: GameState
  score :: int
  keys :: "string \<Rightarrow> bool"
  player :: "ref option"
  heap :: "ref \<Rightarrow> Triangle"
  fresh :: ref

datatype js_error = TypeError | RandomExhausted

text \<open>The palette \<open>this.colors\<close>; it is assigned in the constructor and never changed.\<close>

definition colors :: "color list" where
  "colors = [(1, 0, 0, 1), (0, 1, 0, 1), (0, 0, 1, 1), (1, 1, 0, 1), (1, 0, 1, 1), (0, 1, 1, 1)]"

text \<open>The test \<open>color[0] === 1 && color[1] === 0 && color[2] === 0\<close>.\<close>

fun isRed :: "color \<Rightarrow> bool" where
  "isRed (r, g, b, a) = (r = 1 \<and> g = 0 \<and> b = 0)"

section \<open>Collision test\<close>

definition isColliding :: "Triangle \<Rightarrow> Triangle \<Rightarrow> bool" where
  "isColliding triangle1 triangle2 =
     (let dx = t_x triangle1 - t_x triangle2;
          dy = t_y triangle1 - t_y triangle2;
          distance = sqrt (dx * dx + dy * dy);
          sz = sqrt 3 / 2 * t_size triangle1
      in distance < sz)"

section \<open>Collision handling\<close>

text \<open>
  \<open>handleCollision\<close>: only a pair containing the player object is handled. A red
  partner sets the state to \<open>'lost'\<close> and returns; any other partner adds 10 to the score
  and is spliced out of \<open>gameObjects\<close> at its first index (\<open>indexOf\<close>, then
  \<open>splice(index, 1)\<close> when the index is not -1).
\<close>

definition handleCollision :: "GameModel \<Rightarrow> ref \<Rightarrow> ref \<Rightarrow> GameModel" where
  "handleCollision w triangle1 triangle2 =
     (if Some triangle1 = player w \<or> Some triangle2 = player w then
        (let otherTriangle = (if Some triangle1 = player w then triangle2 else triangle1)
         in if isRed (t_color (heap w otherTriangle)) then w\<lparr>gameState := Lost\<rparr>
            else w\<lparr>score := score w + 10,
                   gameObjects := remove1 otherTriangle (gameObjects w)\<rparr>)
      else w)"

text \<open>The body of the inner loop of \<open>checkCollisions\<close> at indices \<open>i\<close>, \<open>j\<close>.\<close>

definition collideStep :: "GameModel \<Rightarrow> nat \<Rightarrow> nat \<Rightarrow> GameModel" where
  "collideStep w i j =
     (let a = gameObjects w ! i; b = gameObjects w ! j
      in if isColliding (heap w a) (heap w b) then handleCollision w a b else w)"

text \<open>
  The inner loop \<open>for (let j = ...; j < this.gameObjects.length; j++)\<close>. The length is
  read again at every test, after any splice. The second component is the list of the
  pairs of objects handed to \<open>isColliding\<close>, in order.
\<close>

function collideInner :: "nat \<Rightarrow> nat \<Rightarrow> GameModel \<Rightarrow> GameModel \<times> (ref \<times> ref) list" where
  "collideInner i j w =
     (if j < length (gameObjects w) then
        (case collideInner i (j + 1) (collideStep w i j) of
           (w', lg) \<Rightarrow> (w', (gameObjects w ! i, gameObjects w ! j) # lg))
      else (w, []))"
  by pat_completeness auto

termination
proof (relation "measure (\<lambda>(i, j, w). length (gameObjects w) - j)")
  show "wf (measure (\<lambda>(i, j, w). length (gameObjects w) - j))" by simp
next
  fix i j :: nat and w :: GameModel
  assume "j < length (gameObjects w)"
  moreover have "length (gameObjects (collideStep w i j)) \<le> length (gameObjects w)"
    by (simp add: collideStep_def handleCollision_def Let_def length_remove1)
  ultimately show "((i, j + 1, collideStep w i j), (i, j, w))
      \<in> measure (\<lambda>(i, j, w). length (gameObjects w) - j)"
    by simp
qed

declare collideInner.simps [simp del]

text \<open>The outer loop \<open>for (let i = 0; i < this.gameObjects.length; i++)\<close>.\<close>

function collideOuter :: "nat \<Rightarrow> GameModel \<Rightarrow> GameModel \<times> (ref \<times> ref) list" where
  "collideOuter i w =
     (if i < length (gameObjects w) then
        (case collideOuter (i + 1) (fst (collideInner i (i + 1) w)) of
           (w', lg) \<Rightarrow> (w', snd (collideInner i (i + 1) w) @ lg))
      else (w, []))"
  by pat_completeness auto

termination
proof (relation "measure (\<lambda>(i, w). length (gameObjects w) - i)")
  show "wf (measure (\<lambda>(i, w). length (gameObjects w) - i))" by simp
next
  fix i :: nat and w :: GameModel
  assume lt: "i < length (gameObjects w)"
  have len: "length (gameObjects (fst (collideInner a b v))) \<le> length (gameObjects v)" for a b v
  proof (induction a b v rule: collideInner.induct)
    case (1 a b v)
    show ?case
    proof (cases "b < length (gameObjects v)")
      case True
      have "length (gameObjects (fst (collideInner a (b + 1) (collideStep v a b))))
              \<le> length (gameObjects (collideStep v a b))"
        using "1.IH" [OF True] .
      also have "\<dots> \<le> length (gameObjects v)"
        by (simp add: collideStep_def handleCollision_def Let_def length_remove1)
      finally show ?thesis
        using True by (subst collideInner.simps) (simp add: split_beta)
    next
      case False
      then show ?thesis by (subst collideInner.simps) simp
    qed
  qed
  from lt len [of i "i + 1" w]
  show "((i + 1, fst (collideInner i (i + 1) w)), (i, w))
      \<in> measure (\<lambda>(i, w). length (gameObjects w) - i)"
    by simp
qed

declare collideOuter.simps [simp del]

definition checkCollisions_log :: "GameModel \<Rightarrow> GameModel \<times> (ref \<times> ref) list" where
  "checkCollisions_log w = collideOuter 0 w"

definition checkCollisions :: "GameModel \<Rightarrow> GameModel" where
  "checkCollisions w = fst (checkCollisions_log w)"

section \<open>Win check\<close>

definition checkGameOver :: "GameModel \<Rightarrow> GameModel" where
  "checkGameOver w =
     (let nonRedTriangles = filter (\<lambda>obj. \<not> isRed (t_color (heap w obj))) (gameObjects w)
      in if length nonRedTriangles = 1 then w\<lparr>gameState := Won\<rparr> else w)"

section \<open>Player movement\<close>

text \<open>
  The four statements of \<open>updatePlayer\<close>, in order, on the player object. Each guard
  reads the coordinate as the statements before it have left it.
\<close>

definition movePlayer :: "(string \<Rightarrow> bool) \<Rightarrow> Triangle \<Rightarrow> Triangle" where
  "movePlayer ks p =
     (let sz = t_size p;
          p1 = (if ks ''ArrowUp'' \<and> t_y p < 1 - sz then p\<lparr>t_y := t_y p + 0.01\<rparr> else p);
          p2 = (if ks ''ArrowDown'' \<and> t_y p1 > - 1 + sz then p1\<lparr>t_y := t_y p1 - 0.01\<rparr> else p1);
          p3 = (if ks ''ArrowLeft'' \<and> t_x p2 > - 1 + sz then p2\<lparr>t_x := t_x p2 - 0.01\<rparr> else p2);
          p4 = (if ks ''ArrowRight'' \<and> t_x p3 < 1 - sz then p3\<lparr>t_x := t_x p3 + 0.01\<rparr> else p3)
      in p4)"

text \<open>Reading \<open>this.player.size\<close> while \<open>player\<close> is \<open>null\<close> throws a TypeError.\<close>

definition updatePlayer :: "GameModel \<Rightarrow> js_error + GameModel" where
  "updatePlayer w =
     (case player w of
        None \<Rightarrow> Inl TypeError
      | Some p \<Rightarrow> Inr (w\<lparr>heap := (heap w)(p := movePlayer (keys w) (heap w p))\<rparr>))"

definition handleKeyDown :: "GameModel \<Rightarrow> string \<Rightarrow> GameModel" where
  "handleKeyDown w key = w\<lparr>keys := (keys w)(key := True)\<rparr>"

definition handleKeyUp :: "GameModel \<Rightarrow> string \<Rightarrow> GameModel" where
  "handleKeyUp w key = w\<lparr>keys := (keys w)(key := False)\<rparr>"

section \<open>One update of the world\<close>

text \<open>\<open>Triangle.update\<close> has an empty body.\<close>

definition Triangle_update :: "Triangle \<Rightarrow> Triangle" where
  "Triangle_update t = t"

text \<open>The loop \<open>for (let obj of this.gameObjects) obj.update()\<close>.\<close>

definition updateObjects :: "GameModel \<Rightarrow> GameModel" where
  "updateObjects w =
     w\<lparr>heap := (\<lambda>r. if r \<in> set (gameObjects w) then Triangle_update (heap w r) else heap w r)\<rparr>"

definition update :: "GameModel \<Rightarrow> js_error + GameModel" where
  "update w =
     (case updatePlayer w of
        Inl e \<Rightarrow> Inl e
      | Inr w1 \<Rightarrow> Inr (checkGameOver (checkCollisions (updateObjects w1))))"

section \<open>Spawn policy\<close>

text \<open>
  \<open>Math.random()\<close> is an input: the calls take their results, in order, from a list of
  numbers. A call on the empty list is the error \<open>RandomExhausted\<close>, which stands for no
  behaviour of the program; every theorem about spawning supplies enough numbers.
\<close>

definition size0 :: real where
  "size0 = 0.1"

definition padding :: real where
  "padding = size0"

definition randomCoord :: "real \<Rightarrow> real" where
  "randomCoord r = r * (2 - 2 * padding) - (1 - padding)"

text \<open>\<open>new Triangle(x, y, size, color)\<close> allocates at the next free address.\<close>

definition new_Triangle :: "GameModel \<Rightarrow> real \<Rightarrow> real \<Rightarrow> real \<Rightarrow> color \<Rightarrow> ref \<times> GameModel" where
  "new_Triangle w x y sz c =
     (fresh w,
      w\<lparr>heap := (heap w)(fresh w := \<lparr>t_x = x, t_y = y, t_size = sz, t_color = c\<rparr>),
        fresh := fresh w + 1\<rparr>)"

definition push :: "GameModel \<Rightarrow> ref \<Rightarrow> GameModel" where
  "push w r = w\<lparr>gameObjects := gameObjects w @ [r]\<rparr>"

text \<open>\<open>this.colors[k]\<close>; out of range it is \<open>undefined\<close>.\<close>

definition colors_at :: "int \<Rightarrow> color option" where
  "colors_at k = (if 0 \<le> k \<and> k < int (length colors) then Some (colors ! nat k) else None)"

text \<open>
  The loop \<open>while (color is red) color = this.colors[Math.floor(Math.random() *
  (this.colors.length - 1)) + 1]\<close>; each round takes one random number. Reading
  \<open>color[0]\<close> of \<open>undefined\<close> throws a TypeError.
\<close>

fun redraw :: "color \<Rightarrow> real list \<Rightarrow> js_error + (color \<times> real list)" where
  "redraw c [] = (if isRed c then Inl RandomExhausted else Inr (c, []))"
| "redraw c (r # rs) =
     (if isRed c then
        (case colors_at (\<lfloor>r * (real (length colors) - 1)\<rfloor> + 1) of
           None \<Rightarrow> Inl TypeError
         | Some c' \<Rightarrow> redraw c' rs)
      else Inr (c, r # rs))"

text \<open>
  The first loop, \<open>for (let i = 0; i < 3; i++)\<close>; the body does not read \<open>i\<close>, so the
  function counts the rounds that remain.
\<close>

fun redLoop :: "nat \<Rightarrow> GameModel \<Rightarrow> real list \<Rightarrow> js_error + (GameModel \<times> real list)" where
  "redLoop 0 w rs = Inr (w, rs)"
| "redLoop (Suc n) w (r1 # r2 # rs) =
     (case new_Triangle w (randomCoord r1) (randomCoord r2) size0 (1, 0, 0, 1) of
        (a, w') \<Rightarrow> redLoop n (push w' a) rs)"
| "redLoop (Suc n) w rs = Inl RandomExhausted"

text \<open>The second loop, \<open>for (let i = 3; i < 10; i++)\<close>, in the same way.\<close>

fun colorLoop :: "nat \<Rightarrow> GameModel \<Rightarrow> real list \<Rightarrow> js_error + (GameModel \<times> real list)" where
  "colorLoop 0 w rs = Inr (w, rs)"
| "colorLoop (Suc n) w (r1 # r2 # r3 # rs) =
     (case colors_at \<lfloor>r3 * real (length colors)\<rfloor> of
        None \<Rightarrow> Inl TypeError
      | Some c \<Rightarrow>
          (case redraw c rs of
             Inl e \<Rightarrow> Inl e
           | Inr (c', rs') \<Rightarrow>
               (case new_Triangle w (randomCoord r1) (randomCoord r2) size0 c' of
                  (a, w') \<Rightarrow> colorLoop n (push w' a) rs')))"
| "colorLoop (Suc n) w rs = Inl RandomExhausted"

text \<open>
  \<open>createGameObjects\<close>. After the loops, \<open>this.player = this.gameObjects[0]\<close> and
  \<open>this.player.color = [0, 1, 0, 1]\<close>; on an empty array the second statement would
  throw a TypeError.
\<close>

definition createGameObjects :: "GameModel \<Rightarrow> real list \<Rightarrow> js_error + (GameModel \<times> real list)" where
  "createGameObjects w rs =
     (case redLoop 3 (w\<lparr>gameObjects := []\<rparr>) rs of
        Inl e \<Rightarrow> Inl e
      | Inr (w1, rs1) \<Rightarrow>
          (case colorLoop 7 w1 rs1 of
             Inl e \<Rightarrow> Inl e
           | Inr (w2, rs2) \<Rightarrow>
               (case gameObjects w2 of
                  [] \<Rightarrow> Inl TypeError
                | p # _ \<Rightarrow>
                    Inr (w2\<lparr>player := Some p,
                            heap := (heap w2)(p := (heap w2 p)\<lparr>t_color := (0, 1, 0, 1)\<rparr>)\<rparr>,
                         rs2))))"

definition initializeGame :: "GameModel \<Rightarrow> real list \<Rightarrow> js_error + (GameModel \<times> real list)" where
  "initializeGame w rs = createGameObjects (w\<lparr>gameState := Playing, score := 0\<rparr>) rs"

text \<open>
  The constructor of \<open>GameModel\<close>. The store starts with no object allocated; an
  address that was never allocated holds a blank triangle that nothing refers to.
\<close>

definition blank :: Triangle where
  "blank = \<lparr>t_x = 0, t_y = 0, t_size = 0, t_color = (0, 0, 0, 0)\<rparr>"

definition emptyModel :: "real \<Rightarrow> real \<Rightarrow> GameModel" where
  "emptyModel cw ch =
     \<lparr>canvasWidth = cw, canvasHeight = ch, gameObjects = [], gameState = Playing,
      score = 0, keys = (\<lambda>k. False), player = None, heap = (\<lambda>r. blank), fresh = 0\<rparr>"

definition GameModel_new :: "real \<Rightarrow> real \<Rightarrow> real list \<Rightarrow> js_error + (GameModel \<times> real list)" where
  "GameModel_new cw ch rs = createGameObjects (emptyModel cw ch) rs"

section \<open>The loop driver of controller.js\<close>

text \<open>
  \<open>class GameController\<close>. The view only reads the model, so it is left out.
  Times are \<open>Date.now()\<close> values in milliseconds; they are inputs.
\<close>

record GameController =
  model :: GameModel
  startTime :: int
  gameDuration :: int

text \<open>
  The first part of \<open>gameLoop\<close>: \<open>remainingTime\<close> and the assignment of \<open>'lost'\<close>
  when it is not positive.
\<close>

definition remainingTime :: "GameController \<Rightarrow> int \<Rightarrow> int" where
  "remainingTime c now = (let elapsedTime = now - startTime c in max 0 (gameDuration c - elapsedTime))"

definition timeoutCheck :: "GameController \<Rightarrow> int \<Rightarrow> GameController" where
  "timeoutCheck c now =
     (if remainingTime c now \<le> 0 then c\<lparr>model := (model c)\<lparr>gameState := Lost\<rparr>\<rparr> else c)"

text \<open>
  \<open>gameLoop\<close> at time \<open>now\<close>. The flag returned says whether the next frame was
  requested (\<open>requestAnimationFrame\<close>) or the game ended (\<open>endGame\<close>).
\<close>

definition gameLoop :: "GameController \<Rightarrow> int \<Rightarrow> js_error + (GameController \<times> bool)" where
  "gameLoop c now =
     (let c1 = timeoutCheck c now
      in case update (model c1) of
           Inl e \<Rightarrow> Inl e
         | Inr m \<Rightarrow> Inr (c1\<lparr>model := m\<rparr>, gameState m = Playing))"

text \<open>
  \<open>startGame\<close>: \<open>t0\<close> is the time read into \<open>startTime\<close>, \<open>t1\<close> the time the first
  \<open>gameLoop\<close> reads.
\<close>

definition startGame :: "GameController \<Rightarrow> real list \<Rightarrow> int \<Rightarrow> int \<Rightarrow> js_error + (GameController \<times> bool)" where
  "startGame c rs t0 t1 =
     (case initializeGame (model c) rs of
        Inl e \<Rightarrow> Inl e
      | Inr (m, rs') \<Rightarrow> gameLoop (c\<lparr>model := m, startTime := t0, gameDuration := 1 * 60 * 1000\<rparr>) t1)"

text \<open>
  The constructor of \<open>GameController\<close>; \<open>startTime\<close> and \<open>gameDuration\<close> are not
  set before \<open>startGame\<close> (the zeros stand for \<open>undefined\<close> and are never read).
\<close>

definition GameController_new :: "GameModel \<Rightarrow> GameController" where
  "GameController_new m = \<lparr>model = m, startTime = 0, gameDuration = 0\<rparr>"

text \<open>
  \<open>main\<close> of the page: the model for the 800 by 700 canvas, the controller, and
  \<open>startGame\<close>.
\<close>

definition main :: "real list \<Rightarrow> int \<Rightarrow> int \<Rightarrow> js_error + (GameController \<times> bool)" where
  "main rs t0 t1 =
     (case GameModel_new 800 700 rs of
        Inl e \<Rightarrow> Inl e
      | Inr (m, rs') \<Rightarrow> startGame (GameController_new m) rs' t0 t1)"

text \<open>
  What happens after \<open>startGame\<close>: key events, and animation frames at given times.
  A frame runs \<open>gameLoop\<close> only while one is requested.
\<close>

datatype event = Frame int | KeyDown string | KeyUp string

fun handleEvent :: "GameController \<times> bool \<Rightarrow> event \<Rightarrow> js_error + (GameController \<times> bool)" where
  "handleEvent (c, requested) (Frame now) = (if requested then gameLoop c now else Inr (c, requested))"
| "handleEvent (c, requested) (KeyDown key) = Inr (c\<lparr>model := handleKeyDown (model c) key\<rparr>, requested)"
| "handleEvent (c, requested) (KeyUp key) = Inr (c\<lparr>model := handleKeyUp (model c) key\<rparr>, requested)"

fun run :: "GameController \<times> bool \<Rightarrow> event list \<Rightarrow> js_error + (GameController \<times> bool)" where
  "run s [] = Inr s"
| "run s (e # es) = (case handleEvent s e of Inl err \<Rightarrow> Inl err | Inr s' \<Rightarrow> run s' es)"

text \<open>
  A whole execution of the page: \<open>main\<close> on the random numbers and the two times it
  reads, then the events that follow.
\<close>

definition play :: "real list \<Rightarrow> int \<Rightarrow> int \<Rightarrow> event list \<Rightarrow> js_error + (GameController \<times> bool)" where
  "play rs t0 t1 es = (case main rs t0 t1 of Inl e \<Rightarrow> Inl e | Inr s \<Rightarrow> run s es)"

section \<open>The collision test as a comparison of squares\<close>

lemma sqrt_less_iff_sq:
  fixes d c :: real
  assumes "0 \<le> d" "0 \<le> c"
  shows "sqrt d < c \<longleftrightarrow> d < c\<^sup>2"
proof
  assume "sqrt d < c"
  then have "(sqrt d)\<^sup>2 < c\<^sup>2"
    by (intro power_strict_mono) (use assms in simp_all)
  with assms show "d < c\<^sup>2" by simp
next
  assume "d < c\<^sup>2"
  with assms show "sqrt d < c" by (intro real_less_lsqrt)
qed

lemma isColliding_sq:
  "isColliding a b \<longleftrightarrow>
     0 < t_size a
     \<and> ((t_x a - t_x b) * (t_x a - t_x b) + (t_y a - t_y b) * (t_y a - t_y b)) * 4
         < 3 * (t_size a * t_size a)"
proof (cases "0 < t_size a")
  case True
  define d where "d = (t_x a - t_x b) * (t_x a - t_x b) + (t_y a - t_y b) * (t_y a - t_y b)"
  define c where "c = sqrt 3 / 2 * t_size a"
  have d0: "0 \<le> d" by (simp add: d_def)
  have c0: "0 \<le> c" using True by (simp add: c_def)
  have c2: "c\<^sup>2 = 3 / 4 * (t_size a * t_size a)"
    by (simp add: c_def power_mult_distrib power_divide power2_eq_square)
  have "isColliding a b \<longleftrightarrow> sqrt d < c"
    by (simp add: isColliding_def Let_def d_def c_def)
  also have "\<dots> \<longleftrightarrow> d < c\<^sup>2"
    by (rule sqrt_less_iff_sq [OF d0 c0])
  also have "\<dots> \<longleftrightarrow> d * 4 < 3 * (t_size a * t_size a)"
    by (simp add: c2)
  finally show ?thesis using True by (simp add: d_def)
next
  case False
  define d where "d = (t_x a - t_x b) * (t_x a - t_x b) + (t_y a - t_y b) * (t_y a - t_y b)"
  have "sqrt 3 / 2 * t_size a \<le> 0"
    using False by (simp add: mult_nonneg_nonpos)
  moreover have "0 \<le> sqrt d"
    by (simp add: d_def)
  ultimately have "\<not> sqrt d < sqrt 3 / 2 * t_size a" by linarith
  then show ?thesis using False
    by (simp add: isColliding_def Let_def d_def)
qed

text \<open>The test reads the size of its first argument only; on equal sizes it is symmetric.\<close>

lemma isColliding_same_size:
  assumes "t_size a = t_size b"
  shows "isColliding a b = isColliding b a"
proof -
  have "(t_x a - t_x b) * (t_x a - t_x b) = (t_x b - t_x a) * (t_x b - t_x a)"
    and "(t_y a - t_y b) * (t_y a - t_y b) = (t_y b - t_y a) * (t_y b - t_y a)"
    by (simp_all add: algebra_simps)
  then show ?thesis by (simp only: isColliding_sq assms)
qed

section \<open>Facts kept by the collision pass\<close>

text \<open>
  Whatever every loop body keeps, the inner loop, the outer loop and the whole pass keep.
\<close>

lemma collideInner_pres:
  assumes step: "\<And>v i k. P v \<Longrightarrow> i < k \<Longrightarrow> k < length (gameObjects v) \<Longrightarrow> P (collideStep v i k)"
  shows "P w \<Longrightarrow> i < j \<Longrightarrow> P (fst (collideInner i j w))"
proof (induction i j w rule: collideInner.induct)
  case (1 i j w)
  show ?case
  proof (cases "j < length (gameObjects w)")
    case True
    have "P (collideStep w i j)"
      using step "1.prems" True by blast
    then have "P (fst (collideInner i (j + 1) (collideStep w i j)))"
      using "1.IH" [OF True] "1.prems" step by simp
    then show ?thesis
      using True by (subst collideInner.simps) (simp add: split_beta)
  next
    case False
    then show ?thesis
      using "1.prems" by (subst collideInner.simps) simp
  qed
qed

lemma collideOuter_pres:
  assumes step: "\<And>v i k. P v \<Longrightarrow> i < k \<Longrightarrow> k < length (gameObjects v) \<Longrightarrow> P (collideStep v i k)"
  shows "P w \<Longrightarrow> P (fst (collideOuter i w))"
proof (induction i w rule: collideOuter.induct)
  case (1 i w)
  show ?case
  proof (cases "i < length (gameObjects w)")
    case True
    have "P (fst (collideInner i (i + 1) w))"
      by (rule collideInner_pres [where P = P]) (use step "1.prems" in auto)
    then have "P (fst (collideOuter (i + 1) (fst (collideInner i (i + 1) w))))"
      using "1.IH" [OF True] by simp
    then show ?thesis
      using True by (subst collideOuter.simps) (simp add: split_beta)
  next
    case False
    then show ?thesis
      using "1.prems" by (subst collideOuter.simps) simp
  qed
qed

lemma checkCollisions_pres:
  assumes "\<And>v i k. P v \<Longrightarrow> i < k \<Longrightarrow> k < length (gameObjects v) \<Longrightarrow> P (collideStep v i k)"
    and "P w"
  shows "P (checkCollisions w)"
  unfolding checkCollisions_def checkCollisions_log_def
  by (rule collideOuter_pres [where P = P]) (use assms in auto)

section \<open>What one pass and one update leave unchanged\<close>

lemma collideStep_cases:
  "collideStep w i k = w
   \<or> collideStep w i k = w\<lparr>gameState := Lost\<rparr>
   \<or> (\<exists>r. collideStep w i k = w\<lparr>score := score w + 10, gameObjects := remove1 r (gameObjects w)\<rparr>)"
  by (auto simp: collideStep_def handleCollision_def Let_def)

lemma collideStep_heap [simp]: "heap (collideStep w i k) = heap w"
  and collideStep_player [simp]: "player (collideStep w i k) = player w"
  and collideStep_keys [simp]: "keys (collideStep w i k) = keys w"
  and collideStep_fresh [simp]: "fresh (collideStep w i k) = fresh w"
  using collideStep_cases [of w i k] by auto

lemma checkCollisions_heap [simp]: "heap (checkCollisions w) = heap w"
  by (rule checkCollisions_pres [where P = "\<lambda>v. heap v = heap w"]) simp_all

lemma checkCollisions_player [simp]: "player (checkCollisions w) = player w"
  by (rule checkCollisions_pres [where P = "\<lambda>v. player v = player w"]) simp_all

lemma collideStep_state: "gameState (collideStep w i k) = gameState w \<or> gameState (collideStep w i k) = Lost"
  using collideStep_cases [of w i k] by auto

lemma collideStep_keeps_Lost: "gameState w = Lost \<Longrightarrow> gameState (collideStep w i k) = Lost"
  using collideStep_state [of w i k] by auto

lemma collideStep_not_Playing: "gameState w \<noteq> Playing \<Longrightarrow> gameState (collideStep w i k) \<noteq> Playing"
  using collideStep_state [of w i k] by auto

lemma checkCollisions_keeps_Lost: "gameState w = Lost \<Longrightarrow> gameState (checkCollisions w) = Lost"
  by (rule checkCollisions_pres [where P = "\<lambda>v. gameState v = Lost"]) (simp_all add: collideStep_keeps_Lost)

lemma checkCollisions_not_Playing:
  "gameState w \<noteq> Playing \<Longrightarrow> gameState (checkCollisions w) \<noteq> Playing"
  by (rule checkCollisions_pres [where P = "\<lambda>v. gameState v \<noteq> Playing"]) (simp_all add: collideStep_not_Playing)

lemma collideStep_subset: "set (gameObjects (collideStep w i k)) \<subseteq> set (gameObjects w)"
  using collideStep_cases [of w i k] set_remove1_subset by fastforce

lemma checkCollisions_subset: "set (gameObjects (checkCollisions w)) \<subseteq> set (gameObjects w)"
proof (rule checkCollisions_pres [where P = "\<lambda>v. set (gameObjects v) \<subseteq> set (gameObjects w)"])
  fix v :: GameModel and i k :: nat
  assume "set (gameObjects v) \<subseteq> set (gameObjects w)"
  with collideStep_subset [of v i k]
  show "set (gameObjects (collideStep v i k)) \<subseteq> set (gameObjects w)"
    by (rule subset_trans)
qed simp

lemma updateObjects_id [simp]: "updateObjects w = w"
  by (simp add: updateObjects_def Triangle_update_def cong: if_cong)

lemma checkGameOver_state:
  "gameState (checkGameOver w) =
     (if length (filter (\<lambda>obj. \<not> isRed (t_color (heap w obj))) (gameObjects w)) = 1 then Won
      else gameState w)"
  by (simp add: checkGameOver_def Let_def)

lemma checkGameOver_frame [simp]:
  "gameObjects (checkGameOver w) = gameObjects w"
  "heap (checkGameOver w) = heap w"
  "player (checkGameOver w) = player w"
  "keys (checkGameOver w) = keys w"
  "score (checkGameOver w) = score w"
  by (simp_all add: checkGameOver_def Let_def)

lemma updatePlayer_Inr:
  "updatePlayer w = Inr w1 \<longleftrightarrow>
     (\<exists>p. player w = Some p \<and> w1 = w\<lparr>heap := (heap w)(p := movePlayer (keys w) (heap w p))\<rparr>)"
  by (auto simp: updatePlayer_def split: option.splits)

lemma update_Inr:
  "update w = Inr w' \<longleftrightarrow>
     (\<exists>w1. updatePlayer w = Inr w1 \<and> w' = checkGameOver (checkCollisions w1))"
  by (auto simp: update_def split: sum.splits)

lemma update_total: "player w \<noteq> None \<Longrightarrow> \<exists>w'. update w = Inr w'"
  by (auto simp: update_def updatePlayer_def split: option.splits)

lemma update_not_Playing:
  assumes "update w = Inr w'" "gameState w \<noteq> Playing"
  shows "gameState w' \<noteq> Playing"
proof -
  from assms(1) obtain w1 where w1: "updatePlayer w = Inr w1"
    and w': "w' = checkGameOver (checkCollisions w1)"
    by (auto simp: update_Inr)
  from w1 have "gameState w1 = gameState w" by (auto simp: updatePlayer_Inr)
  with assms(2) have "gameState (checkCollisions w1) \<noteq> Playing"
    by (simp add: checkCollisions_not_Playing)
  then show ?thesis by (simp add: w' checkGameOver_state)
qed

text \<open>The number of entities of the collection that are not red, as \<open>checkGameOver\<close> counts them.\<close>

definition nonRedCount :: "GameModel \<Rightarrow> nat" where
  "nonRedCount w = length (filter (\<lambda>obj. \<not> isRed (t_color (heap w obj))) (gameObjects w))"

lemma checkGameOver_nonRedCount:
  "gameState (checkGameOver w) = (if nonRedCount w = 1 then Won else gameState w)"
  "nonRedCount (checkGameOver w) = nonRedCount w"
  by (simp_all add: checkGameOver_state nonRedCount_def)

lemma update_from_Lost:
  assumes "update w = Inr w'" "gameState w = Lost"
  shows "gameState w' = (if nonRedCount w' = 1 then Won else Lost)"
proof -
  from assms(1) obtain w1 where w1: "updatePlayer w = Inr w1"
    and w': "w' = checkGameOver (checkCollisions w1)"
    by (auto simp: update_Inr)
  from w1 assms(2) have "gameState w1 = Lost" by (auto simp: updatePlayer_Inr)
  then have "gameState (checkCollisions w1) = Lost" by (rule checkCollisions_keeps_Lost)
  then show ?thesis by (simp add: w' checkGameOver_nonRedCount)
qed

section \<open>The spawn policy on numbers that Math.random can return\<close>

text \<open>A number that \<open>Math.random()\<close> can return: at least 0 and less than 1.\<close>

definition unitDraw :: "real \<Rightarrow> bool" where
  "unitDraw r = (0 \<le> r \<and> r < 1)"

text \<open>
  A triangle as the spawn policy places it: of the fixed size, with both coordinates in
  \<open>[-1 + size, 1 - size]\<close>.
\<close>

definition spawned :: "Triangle \<Rightarrow> bool" where
  "spawned t = (t_size t = size0
     \<and> - 1 + size0 \<le> t_x t \<and> t_x t \<le> 1 - size0
     \<and> - 1 + size0 \<le> t_y t \<and> t_y t \<le> 1 - size0)"

lemma randomCoord_bounds:
  assumes "unitDraw r"
  shows "- 1 + size0 \<le> randomCoord r" "randomCoord r < 1 - size0"
  using assms by (simp_all add: unitDraw_def randomCoord_def padding_def size0_def)

lemma spawned_new:
  "unitDraw r1 \<Longrightarrow> unitDraw r2 \<Longrightarrow>
   spawned \<lparr>t_x = randomCoord r1, t_y = randomCoord r2, t_size = size0, t_color = c\<rparr>"
  using randomCoord_bounds [of r1] randomCoord_bounds [of r2] by (simp add: spawned_def)

lemma palette_nonred: "0 < i \<Longrightarrow> i < 6 \<Longrightarrow> \<not> isRed (colors ! i)"
proof -
  assume "0 < i" "i < 6"
  then have "i = 1 \<or> i = 2 \<or> i = 3 \<or> i = 4 \<or> i = 5" by arith
  then show ?thesis by (auto simp: colors_def)
qed

lemma colors_at_redraw:
  assumes "unitDraw r"
  shows "\<exists>c. colors_at (\<lfloor>r * (real (length colors) - 1)\<rfloor> + 1) = Some c \<and> \<not> isRed c"
proof -
  have len: "length colors = 6" by (simp add: colors_def)
  define k where "k = \<lfloor>r * 5\<rfloor>"
  have "0 \<le> r * 5" "r * 5 < 5" using assms by (simp_all add: unitDraw_def)
  then have k: "0 \<le> k" "k < 5" by (simp_all add: k_def floor_less_iff)
  then have "0 < nat (k + 1)" "nat (k + 1) < 6" by simp_all
  then have "\<not> isRed (colors ! nat (k + 1))" by (rule palette_nonred)
  moreover have "colors_at (k + 1) = Some (colors ! nat (k + 1))"
    using k by (simp add: colors_at_def len)
  ultimately show ?thesis by (simp add: len k_def)
qed

lemma colors_at_first:
  assumes "unitDraw r"
  shows "\<exists>c. colors_at \<lfloor>r * real (length colors)\<rfloor> = Some c"
proof -
  have len: "length colors = 6" by (simp add: colors_def)
  have "0 \<le> r * 6" "r * 6 < 6" using assms by (simp_all add: unitDraw_def)
  then have "0 \<le> \<lfloor>r * 6\<rfloor>" "\<lfloor>r * 6\<rfloor> < 6" by (simp_all add: floor_less_iff)
  then have "colors_at \<lfloor>r * 6\<rfloor> = Some (colors ! nat \<lfloor>r * 6\<rfloor>)"
    by (simp add: colors_at_def len)
  then show ?thesis by (simp add: len del: split_paired_Ex)
qed

text \<open>The two spawn loops, one round at a time, for a count written as a numeral.\<close>

lemma redLoop_numeral:
  "redLoop (numeral k) w (r1 # r2 # rs) =
     (case new_Triangle w (randomCoord r1) (randomCoord r2) size0 (1, 0, 0, 1) of
        (a, w') \<Rightarrow> redLoop (pred_numeral k) (push w' a) rs)"
  by (simp add: numeral_eq_Suc)

lemma colorLoop_numeral:
  "colorLoop (numeral k) w (r1 # r2 # r3 # rs) =
     (case colors_at \<lfloor>r3 * real (length colors)\<rfloor> of
        None \<Rightarrow> Inl TypeError
      | Some c \<Rightarrow>
          (case redraw c rs of
             Inl e \<Rightarrow> Inl e
           | Inr (c', rs') \<Rightarrow>
               (case new_Triangle w (randomCoord r1) (randomCoord r2) size0 c' of
                  (a, w') \<Rightarrow> colorLoop (pred_numeral k) (push w' a) rs')))"
  by (simp add: numeral_eq_Suc)

lemma redraw_nonred: "\<not> isRed c \<Longrightarrow> redraw c rs = Inr (c, rs)"
  by (cases rs) simp_all

text \<open>The re-draw loop runs at most once on numbers that \<open>Math.random()\<close> can return.\<close>

lemma redraw_total:
  assumes "list_all unitDraw rs" "rs \<noteq> []"
  shows "\<exists>c' k. k \<le> 1 \<and> redraw c rs = Inr (c', drop k rs) \<and> \<not> isRed c'"
proof (cases "isRed c")
  case False
  then have "redraw c rs = Inr (c, drop 0 rs)" by (simp add: redraw_nonred)
  with False show ?thesis by blast
next
  case True
  from assms obtain r rs' where rs: "rs = r # rs'" and r: "unitDraw r"
    by (cases rs) auto
  from colors_at_redraw [OF r] obtain c' where
    c': "colors_at (\<lfloor>r * (real (length colors) - 1)\<rfloor> + 1) = Some c'" "\<not> isRed c'"
    by blast
  then have "redraw c rs = Inr (c', drop 1 rs)"
    using True by (simp add: rs redraw_nonred)
  with c' show ?thesis by blast
qed

text \<open>
  \<open>grows w n Q w'\<close>: the world \<open>w'\<close> is \<open>w\<close> with \<open>n\<close> newly allocated triangles
  pushed, each satisfying \<open>Q\<close>, and nothing else changed.
\<close>

definition grows :: "GameModel \<Rightarrow> nat \<Rightarrow> (Triangle \<Rightarrow> bool) \<Rightarrow> GameModel \<Rightarrow> bool" where
  "grows w n Q w' =
     (gameObjects w' = gameObjects w @ [fresh w ..< fresh w + n]
      \<and> fresh w' = fresh w + n
      \<and> (\<forall>r. r < fresh w \<longrightarrow> heap w' r = heap w r)
      \<and> (\<forall>r. fresh w \<le> r \<and> r < fresh w + n \<longrightarrow> Q (heap w' r))
      \<and> player w' = player w \<and> gameState w' = gameState w
      \<and> score w' = score w \<and> keys w' = keys w)"

lemma grows_0: "grows w 0 Q w"
  by (auto simp: grows_def)

lemma grows_Suc:
  assumes g: "grows (push (snd (new_Triangle w x y s c)) (fresh w)) n Q w'"
    and q: "Q \<lparr>t_x = x, t_y = y, t_size = s, t_color = c\<rparr>"
  shows "grows w (Suc n) Q w'"
proof -
  let ?w2 = "push (snd (new_Triangle w x y s c)) (fresh w)"
  have f2: "fresh ?w2 = Suc (fresh w)"
    and o2: "gameObjects ?w2 = gameObjects w @ [fresh w]"
    and h2: "heap ?w2 = (heap w)(fresh w := \<lparr>t_x = x, t_y = y, t_size = s, t_color = c\<rparr>)"
    and r2: "player ?w2 = player w" "gameState ?w2 = gameState w"
            "score ?w2 = score w" "keys ?w2 = keys w"
    by (simp_all add: push_def new_Triangle_def)
  from g have objs: "gameObjects w' = gameObjects ?w2 @ [fresh ?w2 ..< fresh ?w2 + n]"
    and fr: "fresh w' = fresh ?w2 + n"
    and old: "\<And>r. r < fresh ?w2 \<Longrightarrow> heap w' r = heap ?w2 r"
    and new: "\<And>r. fresh ?w2 \<le> r \<Longrightarrow> r < fresh ?w2 + n \<Longrightarrow> Q (heap w' r)"
    and rest: "player w' = player ?w2" "gameState w' = gameState ?w2"
              "score w' = score ?w2" "keys w' = keys ?w2"
    by (simp_all add: grows_def)
  have "gameObjects w' = gameObjects w @ [fresh w ..< fresh w + Suc n]"
    by (simp add: objs o2 f2 upt_conv_Cons)
  moreover have "fresh w' = fresh w + Suc n"
    by (simp add: fr f2)
  moreover have "heap w' r = heap w r" if "r < fresh w" for r
    using that old [of r] by (simp add: f2 h2)
  moreover have "Q (heap w' r)" if "fresh w \<le> r" "r < fresh w + Suc n" for r
  proof (cases "r = fresh w")
    case True
    then have "heap w' r = \<lparr>t_x = x, t_y = y, t_size = s, t_color = c\<rparr>"
      using old [of r] by (simp add: f2 h2)
    with q show ?thesis by simp
  next
    case False
    with that show ?thesis using new [of r] by (simp add: f2)
  qed
  ultimately show ?thesis
    using rest by (simp add: grows_def r2)
qed

lemma redLoop_grows:
  "list_all unitDraw rs \<Longrightarrow> 2 * n \<le> length rs \<Longrightarrow>
   \<exists>w'. redLoop n w rs = Inr (w', drop (2 * n) rs)
        \<and> grows w n (\<lambda>t. spawned t \<and> isRed (t_color t)) w'"
proof (induction n arbitrary: w rs)
  case 0
  show ?case by (simp add: grows_0)
next
  case (Suc n)
  from Suc.prems obtain r1 r2 rs' where rs: "rs = r1 # r2 # rs'"
    by (cases rs; cases "tl rs") auto
  with Suc.prems have d: "unitDraw r1" "unitDraw r2" "list_all unitDraw rs'" "2 * n \<le> length rs'"
    by simp_all
  let ?w2 = "push (snd (new_Triangle w (randomCoord r1) (randomCoord r2) size0 (1, 0, 0, 1))) (fresh w)"
  from Suc.IH [OF d(3,4), of ?w2] obtain w' where
    w': "redLoop n ?w2 rs' = Inr (w', drop (2 * n) rs')"
        "grows ?w2 n (\<lambda>t. spawned t \<and> isRed (t_color t)) w'"
    by blast
  have "redLoop (Suc n) w rs = redLoop n ?w2 rs'"
    by (simp add: rs new_Triangle_def)
  moreover have "grows w (Suc n) (\<lambda>t. spawned t \<and> isRed (t_color t)) w'"
    by (rule grows_Suc [OF w'(2)]) (simp add: spawned_new d)
  ultimately show ?case
    using w'(1) by (simp add: rs)
qed

lemma colorLoop_grows:
  "list_all unitDraw rs \<Longrightarrow> 4 * n \<le> length rs \<Longrightarrow>
   \<exists>w' k. k \<le> 4 * n \<and> colorLoop n w rs = Inr (w', drop k rs)
        \<and> grows w n (\<lambda>t. spawned t \<and> \<not> isRed (t_color t)) w'"
proof (induction n arbitrary: w rs)
  case 0
  have "colorLoop 0 w rs = Inr (w, drop 0 rs)" by simp
  then show ?case using grows_0 by blast
next
  case (Suc n)
  from Suc.prems obtain r1 r2 r3 rs3 where rs: "rs = r1 # r2 # r3 # rs3"
    by (cases rs; cases "tl rs"; cases "tl (tl rs)") auto
  with Suc.prems have d: "unitDraw r1" "unitDraw r2" "unitDraw r3" "list_all unitDraw rs3"
    and len3: "4 * n + 1 \<le> length rs3"
    by simp_all
  from len3 have ne: "rs3 \<noteq> []" by auto
  from colors_at_first [OF d(3)] obtain c where c: "colors_at \<lfloor>r3 * real (length colors)\<rfloor> = Some c"
    by blast
  from redraw_total [OF d(4) ne, of c] obtain c' k1 where
    k1: "k1 \<le> 1" and rd: "redraw c rs3 = Inr (c', drop k1 rs3)" and c': "\<not> isRed c'"
    by blast
  let ?w2 = "push (snd (new_Triangle w (randomCoord r1) (randomCoord r2) size0 c')) (fresh w)"
  have "list_all unitDraw (drop k1 rs3)"
    using d(4) by (auto simp: list_all_iff dest: in_set_dropD)
  moreover have "4 * n \<le> length (drop k1 rs3)"
    using len3 k1 by simp
  ultimately obtain w' k where
    k: "k \<le> 4 * n" and w': "colorLoop n ?w2 (drop k1 rs3) = Inr (w', drop k (drop k1 rs3))"
    and g: "grows ?w2 n (\<lambda>t. spawned t \<and> \<not> isRed (t_color t)) w'"
    using Suc.IH [of "drop k1 rs3" ?w2] by blast
  have "colorLoop (Suc n) w rs = colorLoop n ?w2 (drop k1 rs3)"
    by (simp add: rs c rd new_Triangle_def)
  moreover have "drop k (drop k1 rs3) = drop (k + k1 + 3) rs"
  proof -
    have "k + k1 + 3 = Suc (Suc (Suc (k1 + k)))" by simp
    then have "drop (k + k1 + 3) rs = drop (k1 + k) rs3"
      by (simp only: rs drop_Suc_Cons)
    then show ?thesis by (simp add: add.commute)
  qed
  moreover have "k + k1 + 3 \<le> 4 * Suc n"
    using k k1 by simp
  moreover have "grows w (Suc n) (\<lambda>t. spawned t \<and> \<not> isRed (t_color t)) w'"
    by (rule grows_Suc [OF g]) (simp add: spawned_new d c')
  ultimately show ?case
    using w' by metis
qed

text \<open>
  What \<open>createGameObjects\<close> returns on at least 34 numbers that \<open>Math.random()\<close> can
  return (two per position, one per colour, at most one per re-draw): ten new objects,
  the first the green player, the next two red, the other seven not red.
\<close>

lemma createGameObjects_spec:
  assumes draws: "list_all unitDraw rs" and len: "34 \<le> length rs"
  shows "\<exists>w' k. k \<le> 34 \<and> createGameObjects w rs = Inr (w', drop k rs)
     \<and> gameObjects w' = [fresh w ..< fresh w + 10]
     \<and> player w' = Some (fresh w)
     \<and> t_color (heap w' (fresh w)) = (0, 1, 0, 1)
     \<and> isRed (t_color (heap w' (fresh w + 1)))
     \<and> isRed (t_color (heap w' (fresh w + 2)))
     \<and> (\<forall>r. fresh w + 3 \<le> r \<and> r < fresh w + 10 \<longrightarrow> \<not> isRed (t_color (heap w' r)))
     \<and> (\<forall>r. fresh w \<le> r \<and> r < fresh w + 10 \<longrightarrow> spawned (heap w' r))
     \<and> gameState w' = gameState w \<and> score w' = score w \<and> keys w' = keys w"
proof -
  let ?w0 = "w\<lparr>gameObjects := []\<rparr>"
  let ?f = "fresh w"
  from len have "2 * 3 \<le> length rs" by simp
  from redLoop_grows [OF draws this, of ?w0] obtain w1 where
    r1: "redLoop 3 ?w0 rs = Inr (w1, drop 6 rs)"
    and g1: "grows ?w0 3 (\<lambda>t. spawned t \<and> isRed (t_color t)) w1"
    by auto
  have "list_all unitDraw (drop 6 rs)"
    using draws by (auto simp: list_all_iff dest: in_set_dropD)
  moreover have "4 * 7 \<le> length (drop 6 rs)" using len by simp
  ultimately obtain w2 k where
    k: "k \<le> 28" and r2: "colorLoop 7 w1 (drop 6 rs) = Inr (w2, drop k (drop 6 rs))"
    and g2: "grows w1 7 (\<lambda>t. spawned t \<and> \<not> isRed (t_color t)) w2"
    using colorLoop_grows [of "drop 6 rs" 7 w1] by auto
  from g1 have o1: "gameObjects w1 = [?f ..< ?f + 3]" and f1: "fresh w1 = ?f + 3"
    and n1: "\<And>r. ?f \<le> r \<Longrightarrow> r < ?f + 3 \<Longrightarrow> spawned (heap w1 r) \<and> isRed (t_color (heap w1 r))"
    and s1: "gameState w1 = gameState w" "score w1 = score w" "keys w1 = keys w"
    by (simp_all add: grows_def)
  from g2 have o2: "gameObjects w2 = [?f ..< ?f + 3] @ [?f + 3 ..< ?f + 3 + 7]"
    and old2: "\<And>r. r < ?f + 3 \<Longrightarrow> heap w2 r = heap w1 r"
    and n2: "\<And>r. ?f + 3 \<le> r \<Longrightarrow> r < ?f + 3 + 7 \<Longrightarrow> spawned (heap w2 r) \<and> \<not> isRed (t_color (heap w2 r))"
    and s2: "gameState w2 = gameState w1" "score w2 = score w1" "keys w2 = keys w1"
    by (simp_all add: grows_def o1 f1)
  have "[?f ..< ?f + 3 + 7] = [?f ..< ?f + 3] @ [?f + 3 ..< ?f + 3 + 7]"
    by (rule upt_add_eq_append) simp
  then have "[?f ..< ?f + 3] @ [?f + 3 ..< ?f + 3 + 7] = [?f ..< ?f + 10]"
    by (simp add: add.commute)
  with o2 have objs: "gameObjects w2 = [?f ..< ?f + 10]" by simp
  then have hd: "gameObjects w2 = ?f # [Suc ?f ..< ?f + 10]"
    by (simp add: upt_conv_Cons)
  let ?w3 = "w2\<lparr>player := Some ?f,
                heap := (heap w2)(?f := (heap w2 ?f)\<lparr>t_color := (0, 1, 0, 1)\<rparr>)\<rparr>"
  have res: "createGameObjects w rs = Inr (?w3, drop (k + 6) rs)"
    by (simp add: createGameObjects_def r1 r2 hd)
  have low: "spawned (heap w2 r) \<and> isRed (t_color (heap w2 r))" if "?f \<le> r" "r < ?f + 3" for r
    using n1 [OF that] old2 [OF that(2)] by simp
  have sp: "spawned (heap ?w3 r)" if "?f \<le> r" "r < ?f + 10" for r
  proof (cases "r < ?f + 3")
    case True
    with that low [of r] show ?thesis by (auto simp: spawned_def)
  next
    case False
    with that n2 [of r] show ?thesis by (auto simp: spawned_def)
  qed
  have "k + 6 \<le> 34" using k by simp
  moreover have "gameObjects ?w3 = [?f ..< ?f + 10]" by (simp add: objs)
  moreover have "player ?w3 = Some ?f" by simp
  moreover have "t_color (heap ?w3 ?f) = (0, 1, 0, 1)" by simp
  moreover have "isRed (t_color (heap ?w3 (?f + 1)))" using low [of "?f + 1"] by simp
  moreover have "isRed (t_color (heap ?w3 (?f + 2)))" using low [of "?f + 2"] by simp
  moreover have "\<forall>r. ?f + 3 \<le> r \<and> r < ?f + 10 \<longrightarrow> \<not> isRed (t_color (heap ?w3 r))"
    using n2 by simp
  moreover have "\<forall>r. ?f \<le> r \<and> r < ?f + 10 \<longrightarrow> spawned (heap ?w3 r)"
    using sp by blast
  moreover have "gameState ?w3 = gameState w" "score ?w3 = score w" "keys ?w3 = keys w"
    by (simp_all add: s1 s2)
  ultimately show ?thesis
    using res by blast
qed

section \<open>The shape of the collection\<close>

text \<open>
  The shape the spawn policy gives the collection and every update keeps: the player
  object first, opaque green; then the two red triangles; then triangles that are not
  red; no object twice.
\<close>

definition wellFormed :: "GameModel \<Rightarrow> bool" where
  "wellFormed w =
     (case gameObjects w of
        p # h1 # h2 # cs \<Rightarrow>
          player w = Some p \<and> distinct (gameObjects w)
          \<and> t_color (heap w p) = (0, 1, 0, 1)
          \<and> isRed (t_color (heap w h1)) \<and> isRed (t_color (heap w h2))
          \<and> list_all (\<lambda>c. \<not> isRed (t_color (heap w c))) cs
      | _ \<Rightarrow> False)"

lemma wellFormed_iff:
  "wellFormed w \<longleftrightarrow>
     (\<exists>p h1 h2 cs. gameObjects w = p # h1 # h2 # cs \<and> player w = Some p
        \<and> distinct (p # h1 # h2 # cs) \<and> t_color (heap w p) = (0, 1, 0, 1)
        \<and> isRed (t_color (heap w h1)) \<and> isRed (t_color (heap w h2))
        \<and> (\<forall>c\<in>set cs. \<not> isRed (t_color (heap w c))))"
  by (auto simp: wellFormed_def list_all_iff split: list.splits)

lemma wellFormed_cong:
  assumes "gameObjects w' = gameObjects w" "player w' = player w"
    and "\<And>r. t_color (heap w' r) = t_color (heap w r)"
  shows "wellFormed w' = wellFormed w"
  by (simp add: wellFormed_iff assms)

lemma createGameObjects_wellFormed:
  assumes "list_all unitDraw rs" "34 \<le> length rs"
  shows "\<exists>w' rs'. createGameObjects w rs = Inr (w', rs') \<and> wellFormed w'"
proof -
  let ?f = "fresh w"
  from createGameObjects_spec [OF assms, of w] obtain w' k where
    res: "createGameObjects w rs = Inr (w', drop k rs)"
    and objs: "gameObjects w' = [?f ..< ?f + 10]"
    and pl: "player w' = Some ?f"
    and gr: "t_color (heap w' ?f) = (0, 1, 0, 1)"
    and h1: "isRed (t_color (heap w' (?f + 1)))"
    and h2: "isRed (t_color (heap w' (?f + 2)))"
    and cs: "\<forall>r. ?f + 3 \<le> r \<and> r < ?f + 10 \<longrightarrow> \<not> isRed (t_color (heap w' r))"
    by blast
  have shape: "[?f ..< ?f + 10] = ?f # (?f + 1) # (?f + 2) # [?f + 3 ..< ?f + 10]"
    by (simp add: upt_conv_Cons)
  have "distinct [?f ..< ?f + 10]" by simp
  then have d: "distinct (?f # (?f + 1) # (?f + 2) # [?f + 3 ..< ?f + 10])"
    by (simp only: shape)
  have o: "gameObjects w' = ?f # (?f + 1) # (?f + 2) # [?f + 3 ..< ?f + 10]"
    by (simp only: objs shape)
  have "\<forall>c\<in>set [?f + 3 ..< ?f + 10]. \<not> isRed (t_color (heap w' c))"
    using cs by simp
  with o d pl gr h1 h2 have "wellFormed w'"
    unfolding wellFormed_iff by blast
  with res show ?thesis by blast
qed

lemma collideStep_cases_player:
  assumes "player w = Some p" "gameObjects w ! i \<noteq> gameObjects w ! k"
  shows "collideStep w i k = w
   \<or> collideStep w i k = w\<lparr>gameState := Lost\<rparr>
   \<or> (\<exists>r. r \<noteq> p \<and> \<not> isRed (t_color (heap w r))
          \<and> collideStep w i k = w\<lparr>score := score w + 10, gameObjects := remove1 r (gameObjects w)\<rparr>)"
proof -
  let ?a = "gameObjects w ! i" and ?b = "gameObjects w ! k"
  show ?thesis
  proof (cases "isColliding (heap w ?a) (heap w ?b) \<and> (?a = p \<or> ?b = p)")
    case False
    then have "collideStep w i k = w"
      using assms(1) by (auto simp: collideStep_def handleCollision_def Let_def)
    then show ?thesis by simp
  next
    case True
    define r where "r = (if ?a = p then ?b else ?a)"
    have rp: "r \<noteq> p" using True assms(2) by (auto simp: r_def)
    have step: "collideStep w i k =
        (if isRed (t_color (heap w r)) then w\<lparr>gameState := Lost\<rparr>
         else w\<lparr>score := score w + 10, gameObjects := remove1 r (gameObjects w)\<rparr>)"
      using True assms(1) by (auto simp: collideStep_def handleCollision_def Let_def r_def)
    show ?thesis
    proof (cases "isRed (t_color (heap w r))")
      case True
      with step show ?thesis by simp
    next
      case False
      with step rp show ?thesis by auto
    qed
  qed
qed

lemma wellFormed_remove:
  assumes wf: "wellFormed w" and r: "Some r \<noteq> player w" "\<not> isRed (t_color (heap w r))"
  shows "wellFormed (w\<lparr>score := n, gameObjects := remove1 r (gameObjects w)\<rparr>)"
proof -
  from wf obtain p h1 h2 cs where
    objs: "gameObjects w = p # h1 # h2 # cs" and pl: "player w = Some p"
    and d: "distinct (p # h1 # h2 # cs)" and g: "t_color (heap w p) = (0, 1, 0, 1)"
    and h: "isRed (t_color (heap w h1))" "isRed (t_color (heap w h2))"
    and c: "\<forall>c\<in>set cs. \<not> isRed (t_color (heap w c))"
    by (auto simp: wellFormed_iff)
  from r pl h have ne: "r \<noteq> p" "r \<noteq> h1" "r \<noteq> h2" by auto
  then have rem: "remove1 r (gameObjects w) = p # h1 # h2 # remove1 r cs"
    by (simp add: objs)
  have "distinct (p # h1 # h2 # remove1 r cs)"
    using d by (auto dest: notin_set_remove1)
  moreover have "\<forall>c\<in>set (remove1 r cs). \<not> isRed (t_color (heap w c))"
    using c by (auto dest: notin_set_remove1)
  ultimately show ?thesis
    unfolding wellFormed_iff using rem pl g h by simp
qed

lemma wellFormed_collideStep:
  assumes wf: "wellFormed w" and ik: "i < k" "k < length (gameObjects w)"
  shows "wellFormed (collideStep w i k)"
proof -
  from wf obtain p where pl: "player w = Some p" and d: "distinct (gameObjects w)"
    by (auto simp: wellFormed_iff)
  from d ik have "gameObjects w ! i \<noteq> gameObjects w ! k"
    by (simp add: nth_eq_iff_index_eq)
  from collideStep_cases_player [OF pl this]
  consider "collideStep w i k = w" | "collideStep w i k = w\<lparr>gameState := Lost\<rparr>"
    | r where "r \<noteq> p" "\<not> isRed (t_color (heap w r))"
        "collideStep w i k = w\<lparr>score := score w + 10, gameObjects := remove1 r (gameObjects w)\<rparr>"
    by blast
  then show ?thesis
  proof cases
    case 1
    with wf show ?thesis by simp
  next
    case 2
    have "wellFormed (w\<lparr>gameState := Lost\<rparr>) = wellFormed w"
      by (rule wellFormed_cong) simp_all
    with wf 2 show ?thesis by simp
  next
    case 3
    then show ?thesis
      using wellFormed_remove [OF wf, of r "score w + 10"] pl by simp
  qed
qed

lemma wellFormed_checkCollisions: "wellFormed w \<Longrightarrow> wellFormed (checkCollisions w)"
  by (rule checkCollisions_pres [where P = wellFormed]) (simp_all add: wellFormed_collideStep)

lemma movePlayer_color [simp]: "t_color (movePlayer ks t) = t_color t"
  and movePlayer_size [simp]: "t_size (movePlayer ks t) = t_size t"
  by (simp_all add: movePlayer_def Let_def)

lemma wellFormed_checkGameOver [simp]: "wellFormed (checkGameOver w) = wellFormed w"
  by (rule wellFormed_cong) simp_all

lemma wellFormed_updatePlayer:
  assumes "updatePlayer w = Inr w1"
  shows "wellFormed w1 = wellFormed w"
proof -
  from assms obtain p where "player w = Some p"
    and w1: "w1 = w\<lparr>heap := (heap w)(p := movePlayer (keys w) (heap w p))\<rparr>"
    by (auto simp: updatePlayer_Inr)
  show ?thesis by (rule wellFormed_cong) (simp_all add: w1)
qed

lemma wellFormed_update:
  assumes "update w = Inr w'" "wellFormed w"
  shows "wellFormed w'"
proof -
  from assms(1) obtain w1 where w1: "updatePlayer w = Inr w1"
    and w': "w' = checkGameOver (checkCollisions w1)"
    by (auto simp: update_Inr)
  from wellFormed_updatePlayer [OF w1] assms(2) have "wellFormed w1" by simp
  then show ?thesis by (simp add: w' wellFormed_checkCollisions)
qed

lemma wellFormed_player: "wellFormed w \<Longrightarrow> player w \<noteq> None"
  by (auto simp: wellFormed_iff)

section \<open>Red triangles in the collision pass\<close>

lemma collideInner_unfold:
  "j < length (gameObjects w) \<Longrightarrow>
   fst (collideInner i j w) = fst (collideInner i (Suc j) (collideStep w i j))"
  by (subst collideInner.simps) (simp add: split_beta)

lemma collideOuter_unfold:
  "i < length (gameObjects w) \<Longrightarrow>
   fst (collideOuter i w) = fst (collideOuter (Suc i) (fst (collideInner i (Suc i) w)))"
  by (subst collideOuter.simps) (simp add: split_beta)

lemma collideInner_keeps_Lost:
  "gameState w = Lost \<Longrightarrow> i < j \<Longrightarrow> gameState (fst (collideInner i j w)) = Lost"
  by (rule collideInner_pres [where P = "\<lambda>v. gameState v = Lost"]) (simp_all add: collideStep_keeps_Lost)

lemma collideOuter_keeps_Lost:
  "gameState w = Lost \<Longrightarrow> gameState (fst (collideOuter i w)) = Lost"
  by (rule collideOuter_pres [where P = "\<lambda>v. gameState v = Lost"]) (simp_all add: collideStep_keeps_Lost)

lemma handleCollision_hazard:
  assumes "player w = Some p" "isRed (t_color (heap w h))"
  shows "handleCollision w p h = w\<lparr>gameState := Lost\<rparr>"
  using assms by (simp add: handleCollision_def)

text \<open>A pass on a well-formed world in which the player touches a red triangle ends lost.\<close>

lemma hazard_pass_lost:
  assumes wf: "wellFormed w" and pl: "player w = Some p"
    and h: "h \<in> set (gameObjects w)" "isRed (t_color (heap w h))"
    and col: "isColliding (heap w p) (heap w h)"
  shows "gameState (checkCollisions w) = Lost"
proof -
  from wf pl obtain h1 h2 cs where
    objs: "gameObjects w = p # h1 # h2 # cs"
    and g: "t_color (heap w p) = (0, 1, 0, 1)"
    and r: "isRed (t_color (heap w h1))" "isRed (t_color (heap w h2))"
    and c: "\<forall>c\<in>set cs. \<not> isRed (t_color (heap w c))"
    by (auto simp: wellFormed_iff)
  from h g c have h12: "h = h1 \<or> h = h2" by (auto simp: objs)
  define v1 where "v1 = collideStep w 0 (Suc 0)"
  define v2 where "v2 = collideStep v1 0 (Suc (Suc 0))"
  have v1: "v1 = (if isColliding (heap w p) (heap w h1) then w\<lparr>gameState := Lost\<rparr> else w)"
    by (simp add: v1_def collideStep_def objs handleCollision_hazard [OF pl r(1)])
  then have f1: "gameObjects v1 = p # h1 # h2 # cs" "heap v1 = heap w" "player v1 = Some p"
    by (simp_all add: objs pl)
  have "handleCollision v1 p h2 = v1\<lparr>gameState := Lost\<rparr>"
    by (rule handleCollision_hazard) (simp_all add: f1 r)
  then have v2: "v2 = (if isColliding (heap w p) (heap w h2) then v1\<lparr>gameState := Lost\<rparr> else v1)"
    by (simp add: v2_def collideStep_def f1)
  from h12 col v1 v2 have lost: "gameState v2 = Lost" by auto
  have "fst (collideInner 0 (Suc 0) w) = fst (collideInner 0 (Suc (Suc 0)) v1)"
    unfolding v1_def by (rule collideInner_unfold) (simp add: objs)
  also have "\<dots> = fst (collideInner 0 (Suc (Suc (Suc 0))) v2)"
    unfolding v2_def by (rule collideInner_unfold) (simp add: f1)
  finally have "gameState (fst (collideInner 0 (Suc 0) w)) = Lost"
    using collideInner_keeps_Lost [OF lost, of 0 "Suc (Suc (Suc 0))"] by simp
  then have "gameState (fst (collideOuter (Suc 0) (fst (collideInner 0 (Suc 0) w)))) = Lost"
    by (rule collideOuter_keeps_Lost)
  moreover have "fst (collideOuter 0 w) = fst (collideOuter (Suc 0) (fst (collideInner 0 (Suc 0) w)))"
    by (rule collideOuter_unfold) (simp add: objs)
  ultimately show ?thesis
    by (simp add: checkCollisions_def checkCollisions_log_def)
qed

text \<open>Red triangles are never removed.\<close>

lemma hazard_stays:
  assumes wf: "wellFormed w" and h: "h \<in> set (gameObjects w)" "isRed (t_color (heap w h))"
  shows "h \<in> set (gameObjects (checkCollisions w))"
proof -
  let ?P = "\<lambda>v. wellFormed v \<and> heap v = heap w \<and> h \<in> set (gameObjects v)"
  have "?P (checkCollisions w)"
  proof (rule checkCollisions_pres [where P = ?P])
    fix v :: GameModel and i k :: nat
    assume P: "?P v" and ik: "i < k" "k < length (gameObjects v)"
    from P obtain p where pl: "player v = Some p" and d: "distinct (gameObjects v)"
      by (auto simp: wellFormed_iff)
    from d ik have ne: "gameObjects v ! i \<noteq> gameObjects v ! k"
      by (simp add: nth_eq_iff_index_eq)
    from collideStep_cases_player [OF pl ne]
    consider "gameObjects (collideStep v i k) = gameObjects v"
      | r where "\<not> isRed (t_color (heap v r))"
          "gameObjects (collideStep v i k) = remove1 r (gameObjects v)"
      by auto
    then have "h \<in> set (gameObjects (collideStep v i k))"
    proof cases
      case 1
      with P show ?thesis by simp
    next
      case 2
      with P h(2) have "h \<noteq> r" by auto
      with P 2 show ?thesis by (simp add: in_set_remove1)
    qed
    with P ik show "?P (collideStep v i k)"
      by (simp add: wellFormed_collideStep)
  qed (use wf h in simp)
  then show ?thesis by simp
qed

text \<open>
  The score never goes down and the collection never grows in the body of the loops.
\<close>

lemma collideStep_grows:
  assumes "s \<le> score v \<and> length (gameObjects v) < n"
  shows "s \<le> score (collideStep v i k) \<and> length (gameObjects (collideStep v i k)) < n"
proof -
  from collideStep_cases [of v i k]
  have "score v \<le> score (collideStep v i k)
      \<and> length (gameObjects (collideStep v i k)) \<le> length (gameObjects v)"
    by (auto simp: length_remove1)
  with assms show ?thesis by linarith
qed

text \<open>
  The inner loop of the player, entered at index \<open>j\<close>, with a triangle that is not red
  and that the player touches at an index from \<open>j\<close> on: the loop reaches the first such
  triangle with the collection as it was, and takes it.
\<close>

lemma collideInner_takes:
  assumes "player w = Some p" and "gameObjects w ! 0 = p"
    and "j \<le> k" and "k < length (gameObjects w)" and "0 < j"
    and "\<not> isRed (t_color (heap w (gameObjects w ! k)))"
    and "isColliding (heap w p) (heap w (gameObjects w ! k))"
  shows "score w + 10 \<le> score (fst (collideInner 0 j w))
     \<and> length (gameObjects (fst (collideInner 0 j w))) < length (gameObjects w)"
  using assms
proof (induction "0 :: nat" j w rule: collideInner.induct)
  case (1 j w)
  let ?b = "gameObjects w ! j"
  let ?v = "collideStep w 0 j"
  from "1.prems" have jl: "j < length (gameObjects w)" by simp
  have unf: "fst (collideInner 0 j w) = fst (collideInner 0 (Suc j) ?v)"
    by (rule collideInner_unfold [OF jl])
  show ?case
  proof (cases "isColliding (heap w p) (heap w ?b) \<and> \<not> isRed (t_color (heap w ?b))")
    case True
    then have v: "?v = w\<lparr>score := score w + 10, gameObjects := remove1 ?b (gameObjects w)\<rparr>"
      using "1.prems"(1,2) by (simp add: collideStep_def handleCollision_def Let_def)
    have "?b \<in> set (gameObjects w)" using jl by simp
    then have "length (remove1 ?b (gameObjects w)) < length (gameObjects w)"
      by (simp add: length_remove1) (cases "gameObjects w", simp_all)
    with v have P: "score w + 10 \<le> score ?v \<and> length (gameObjects ?v) < length (gameObjects w)"
      by simp
    have "score w + 10 \<le> score (fst (collideInner 0 (Suc j) ?v))
       \<and> length (gameObjects (fst (collideInner 0 (Suc j) ?v))) < length (gameObjects w)"
      by (rule collideInner_pres [where P = "\<lambda>v. score w + 10 \<le> score v
            \<and> length (gameObjects v) < length (gameObjects w)"])
         (use P in \<open>auto intro: collideStep_grows [THEN conjunct1] collideStep_grows [THEN conjunct2]\<close>)
    then show ?thesis by (simp only: unf)
  next
    case False
    then have v: "?v = w \<or> ?v = w\<lparr>gameState := Lost\<rparr>"
      using "1.prems"(1,2) by (auto simp: collideStep_def handleCollision_def Let_def)
    from False "1.prems" have "j \<noteq> k" by auto
    with "1.prems" have jk: "Suc j \<le> k" by simp
    from v have same: "gameObjects ?v = gameObjects w" "score ?v = score w" "heap ?v = heap w"
      "player ?v = player w"
      by auto
    have "score ?v + 10 \<le> score (fst (collideInner 0 (j + 1) ?v))
       \<and> length (gameObjects (fst (collideInner 0 (j + 1) ?v))) < length (gameObjects ?v)"
      by (rule "1.hyps" [OF jl]) (use "1.prems" jk in \<open>simp_all add: same\<close>)
    then show ?thesis by (simp add: unf same)
  qed
qed

text \<open>
  A pass on a well-formed world in which the player touches a triangle that is not red
  takes at least one triangle out of the collection and adds at least 10 to the score.
\<close>

lemma collectible_pass_takes:
  assumes wf: "wellFormed w" and pl: "player w = Some p"
    and c: "c \<in> set (gameObjects w)" "c \<noteq> p" "\<not> isRed (t_color (heap w c))"
    and col: "isColliding (heap w p) (heap w c)"
  shows "score w + 10 \<le> score (checkCollisions w)
     \<and> length (gameObjects (checkCollisions w)) < length (gameObjects w)"
proof -
  from wf pl have p0: "gameObjects w ! 0 = p" and ne: "0 < length (gameObjects w)"
    by (auto simp: wellFormed_iff)
  from c(1) obtain k where k: "k < length (gameObjects w)" "gameObjects w ! k = c"
    by (auto simp: in_set_conv_nth)
  with c(2) p0 have k0: "Suc 0 \<le> k" by (cases k) auto
  have inner: "score w + 10 \<le> score (fst (collideInner 0 (Suc 0) w))
     \<and> length (gameObjects (fst (collideInner 0 (Suc 0) w))) < length (gameObjects w)"
    by (rule collideInner_takes [OF pl p0 k0 k(1)]) (use k c col in simp_all)
  have "score w + 10 \<le> score (fst (collideOuter (Suc 0) (fst (collideInner 0 (Suc 0) w))))
     \<and> length (gameObjects (fst (collideOuter (Suc 0) (fst (collideInner 0 (Suc 0) w)))))
         < length (gameObjects w)"
    by (rule collideOuter_pres [where P = "\<lambda>v. score w + 10 \<le> score v
          \<and> length (gameObjects v) < length (gameObjects w)"])
       (use inner in \<open>auto intro: collideStep_grows [THEN conjunct1] collideStep_grows [THEN conjunct2]\<close>)
  moreover have "fst (collideOuter 0 w) = fst (collideOuter (Suc 0) (fst (collideInner 0 (Suc 0) w)))"
    by (rule collideOuter_unfold [OF ne])
  ultimately show ?thesis
    by (simp add: checkCollisions_def checkCollisions_log_def)
qed

section \<open>Facts kept along a round\<close>

lemma gameLoop_Inr:
  "gameLoop c now = Inr (c', rq) \<longleftrightarrow>
     (\<exists>m. update (model (timeoutCheck c now)) = Inr m
        \<and> c' = (timeoutCheck c now)\<lparr>model := m\<rparr> \<and> rq = (gameState m = Playing))"
  by (auto simp: gameLoop_def Let_def split: sum.splits)

lemma timeoutCheck_model:
  "model (timeoutCheck c now) = model c \<or> model (timeoutCheck c now) = (model c)\<lparr>gameState := Lost\<rparr>"
  by (simp add: timeoutCheck_def)

text \<open>
  A property of the model that setting the state to \<open>'lost'\<close>, a change of the pressed keys
  and an update keep is kept by \<open>gameLoop\<close>, by every event and by every run.
\<close>

lemma gameLoop_invariant:
  assumes st: "\<And>w. J w \<Longrightarrow> J (w\<lparr>gameState := Lost\<rparr>)"
    and up: "\<And>w w'. J w \<Longrightarrow> update w = Inr w' \<Longrightarrow> J w'"
    and J: "J (model c)" and g: "gameLoop c now = Inr (c', rq)"
  shows "J (model c')"
proof -
  from g obtain m where m: "update (model (timeoutCheck c now)) = Inr m"
    and c': "c' = (timeoutCheck c now)\<lparr>model := m\<rparr>"
    by (auto simp: gameLoop_Inr)
  from J st timeoutCheck_model [of c now] have "J (model (timeoutCheck c now))" by auto
  from up [OF this m] show ?thesis by (simp add: c')
qed

lemma handleEvent_invariant:
  assumes st: "\<And>w. J w \<Longrightarrow> J (w\<lparr>gameState := Lost\<rparr>)"
    and ks: "\<And>w f. J w \<Longrightarrow> J (w\<lparr>keys := f\<rparr>)"
    and up: "\<And>w w'. J w \<Longrightarrow> update w = Inr w' \<Longrightarrow> J w'"
    and J: "J (model (fst s))" and h: "handleEvent s e = Inr s'"
  shows "J (model (fst s'))"
proof (cases s)
  case (Pair c rq)
  show ?thesis
  proof (cases e)
    case (Frame now)
    show ?thesis
    proof (cases rq)
      case True
      with h Pair Frame have "gameLoop c now = Inr (fst s', snd s')" by simp
      from gameLoop_invariant [where J = J, OF st up _ this] J Pair show ?thesis by simp
    next
      case False
      with h Pair Frame J show ?thesis by auto
    qed
  next
    case (KeyDown key)
    with h Pair J ks [of "model c"] show ?thesis by (auto simp: handleKeyDown_def)
  next
    case (KeyUp key)
    with h Pair J ks [of "model c"] show ?thesis by (auto simp: handleKeyUp_def)
  qed
qed

lemma run_invariant:
  assumes st: "\<And>w. J w \<Longrightarrow> J (w\<lparr>gameState := Lost\<rparr>)"
    and ks: "\<And>w f. J w \<Longrightarrow> J (w\<lparr>keys := f\<rparr>)"
    and up: "\<And>w w'. J w \<Longrightarrow> update w = Inr w' \<Longrightarrow> J w'"
  shows "J (model (fst s)) \<Longrightarrow> run s es = Inr s' \<Longrightarrow> J (model (fst s'))"
proof (induction es arbitrary: s)
  case Nil
  then show ?case by simp
next
  case (Cons e es)
  from Cons.prems(2) obtain s1 where e: "handleEvent s e = Inr s1" and r: "run s1 es = Inr s'"
    by (auto split: sum.splits)
  have "J (model (fst s1))"
    by (rule handleEvent_invariant [where J = J, OF st ks up Cons.prems(1) e])
  from Cons.IH [OF this r] show ?case .
qed

text \<open>The world \<open>startGame\<close> hands to the first \<open>gameLoop\<close> is freshly spawned.\<close>

lemma startGame_Inr:
  "startGame c rs t0 t1 = Inr s \<longleftrightarrow>
     (\<exists>m rs'. createGameObjects ((model c)\<lparr>gameState := Playing, score := 0\<rparr>) rs = Inr (m, rs')
        \<and> gameLoop (c\<lparr>model := m, startTime := t0, gameDuration := 60000\<rparr>) t1 = Inr s)"
  by (auto simp: startGame_def initializeGame_def split: sum.splits)

lemma startGame_invariant:
  assumes st: "\<And>w. J w \<Longrightarrow> J (w\<lparr>gameState := Lost\<rparr>)"
    and up: "\<And>w w'. J w \<Longrightarrow> update w = Inr w' \<Longrightarrow> J w'"
    and cr: "\<And>w w' rs'. createGameObjects w rs = Inr (w', rs') \<Longrightarrow> J w'"
    and s: "startGame c rs t0 t1 = Inr s"
  shows "J (model (fst s))"
proof -
  from s obtain m rs' where
    m: "createGameObjects ((model c)\<lparr>gameState := Playing, score := 0\<rparr>) rs = Inr (m, rs')"
    and g: "gameLoop (c\<lparr>model := m, startTime := t0, gameDuration := 60000\<rparr>) t1 = Inr (fst s, snd s)"
    by (auto simp: startGame_Inr)
  from cr [OF m] have "J (model (c\<lparr>model := m, startTime := t0, gameDuration := 60000\<rparr>))" by simp
  from gameLoop_invariant [where J = J, OF st up this g] show ?thesis .
qed

text \<open>Nothing fails once the player object exists.\<close>

lemma gameLoop_total:
  assumes "player (model c) \<noteq> None"
  shows "\<exists>s. gameLoop c now = Inr s"
proof -
  have "player (model (timeoutCheck c now)) \<noteq> None"
    using assms timeoutCheck_model [of c now] by auto
  from update_total [OF this] show ?thesis
    by (auto simp: gameLoop_def Let_def)
qed

lemma handleEvent_total:
  assumes "player (model (fst s)) \<noteq> None"
  shows "\<exists>s'. handleEvent s e = Inr s'"
  using assms gameLoop_total [of "fst s"] by (cases s; cases e) auto

lemma update_player:
  assumes "update w = Inr w'"
  shows "player w' = player w"
  using assms by (auto simp: update_Inr updatePlayer_Inr)

lemma run_total:
  "player (model (fst s)) \<noteq> None \<Longrightarrow> \<exists>s'. run s es = Inr s'"
proof (induction es arbitrary: s)
  case Nil
  show ?case by simp
next
  case (Cons e es)
  from handleEvent_total [OF Cons.prems] obtain s1 where e: "handleEvent s e = Inr s1" by blast
  have "player (model (fst s1)) \<noteq> None"
    by (rule handleEvent_invariant [where J = "\<lambda>w. player w \<noteq> None", OF _ _ _ Cons.prems e])
       (simp_all add: update_player)
  from Cons.IH [OF this] e show ?case by auto
qed

lemma startGame_total:
  assumes "list_all unitDraw rs" "34 \<le> length rs"
  shows "\<exists>s. startGame c rs t0 t1 = Inr s"
proof -
  from createGameObjects_spec [OF assms, of "(model c)\<lparr>gameState := Playing, score := 0\<rparr>"]
  obtain m k where m: "createGameObjects ((model c)\<lparr>gameState := Playing, score := 0\<rparr>) rs = Inr (m, drop k rs)"
    and p: "player m \<noteq> None"
    by auto
  from gameLoop_total [of "c\<lparr>model := m, startTime := t0, gameDuration := 60000\<rparr>" t1] p
  obtain s where "gameLoop (c\<lparr>model := m, startTime := t0, gameDuration := 60000\<rparr>) t1 = Inr s"
    by auto
  with m show ?thesis by (auto simp: startGame_Inr)
qed

lemma timeoutCheck_times [simp]:
  "startTime (timeoutCheck c now) = startTime c"
  "gameDuration (timeoutCheck c now) = gameDuration c"
  by (simp_all add: timeoutCheck_def)

lemma gameLoop_times:
  assumes "gameLoop c now = Inr s'"
  shows "startTime (fst s') = startTime c \<and> gameDuration (fst s') = gameDuration c"
proof -
  from assms have "gameLoop c now = Inr (fst s', snd s')" by simp
  then obtain m where "fst s' = (timeoutCheck c now)\<lparr>model := m\<rparr>"
    unfolding gameLoop_Inr by blast
  then show ?thesis by simp
qed

lemma handleEvent_times:
  assumes "handleEvent s e = Inr s'"
  shows "startTime (fst s') = startTime (fst s) \<and> gameDuration (fst s') = gameDuration (fst s)"
proof (cases s)
  case (Pair c rq)
  show ?thesis
  proof (cases e)
    case (Frame now)
    with assms Pair gameLoop_times [of c now s'] show ?thesis
      by (cases rq) auto
  next
    case (KeyDown key)
    with assms Pair show ?thesis by auto
  next
    case (KeyUp key)
    with assms Pair show ?thesis by auto
  qed
qed

lemma run_times:
  "run s es = Inr s' \<Longrightarrow>
   startTime (fst s') = startTime (fst s) \<and> gameDuration (fst s') = gameDuration (fst s)"
proof (induction es arbitrary: s)
  case Nil
  then show ?case by simp
next
  case (Cons e es)
  from Cons.prems obtain s1 where e: "handleEvent s e = Inr s1" and r: "run s1 es = Inr s'"
    by (auto split: sum.splits)
  from handleEvent_times [OF e] Cons.IH [OF r] show ?case by simp
qed

section \<open>Rounds of the whole page\<close>

lemma createGameObjects_result:
  assumes "list_all unitDraw rs" "34 \<le> length rs" "createGameObjects w rs = Inr (w', rs')"
  shows "wellFormed w'" and "\<exists>k. k \<le> 34 \<and> rs' = drop k rs"
    and "\<exists>p. player w' = Some p \<and> spawned (heap w' p)"
proof -
  from createGameObjects_wellFormed [OF assms(1,2), of w] assms(3)
  show "wellFormed w'" by auto
  from createGameObjects_spec [OF assms(1,2), of w] assms(3)
  show "\<exists>k. k \<le> 34 \<and> rs' = drop k rs" by auto
  from createGameObjects_spec [OF assms(1,2), of w] assms(3)
  show "\<exists>p. player w' = Some p \<and> spawned (heap w' p)" by auto
qed

lemma drop_draws:
  assumes "list_all unitDraw rs" "68 \<le> length rs" "k \<le> 34"
  shows "list_all unitDraw (drop k rs)" "34 \<le> length (drop k rs)"
  using assms by (auto simp: list_all_iff dest: in_set_dropD)

lemma main_Inr:
  "main rs t0 t1 = Inr s \<longleftrightarrow>
     (\<exists>m rs'. createGameObjects (emptyModel 800 700) rs = Inr (m, rs')
        \<and> startGame (GameController_new m) rs' t0 t1 = Inr s)"
  by (auto simp: main_def GameModel_new_def split: sum.splits)

lemma play_Inr:
  "play rs t0 t1 es = Inr s' \<longleftrightarrow> (\<exists>s. main rs t0 t1 = Inr s \<and> run s es = Inr s')"
  by (auto simp: play_def split: sum.splits)

text \<open>
  A property of the model that every spawn establishes and that setting \<open>'lost'\<close>, the
  key handlers and \<open>update\<close> keep holds after every execution of the page.
\<close>

lemma play_invariant:
  assumes draws: "list_all unitDraw rs" "68 \<le> length rs"
    and cr: "\<And>w ds w' ds'. list_all unitDraw ds \<Longrightarrow> 34 \<le> length ds \<Longrightarrow>
               createGameObjects w ds = Inr (w', ds') \<Longrightarrow> J w'"
    and st: "\<And>w. J w \<Longrightarrow> J (w\<lparr>gameState := Lost\<rparr>)"
    and ks: "\<And>w f. J w \<Longrightarrow> J (w\<lparr>keys := f\<rparr>)"
    and up: "\<And>w w'. J w \<Longrightarrow> update w = Inr w' \<Longrightarrow> J w'"
    and p: "play rs t0 t1 es = Inr s'"
  shows "J (model (fst s'))"
proof -
  from p obtain s m rs' where
    m: "createGameObjects (emptyModel 800 700) rs = Inr (m, rs')"
    and s: "startGame (GameController_new m) rs' t0 t1 = Inr s"
    and r: "run s es = Inr s'"
    by (auto simp: play_Inr main_Inr)
  from draws have d34: "34 \<le> length rs" by simp
  from createGameObjects_result(2) [OF draws(1) d34 m] obtain k where
    k: "k \<le> 34" "rs' = drop k rs" by blast
  have d': "list_all unitDraw rs'" "34 \<le> length rs'"
    using drop_draws [OF draws k(1)] by (simp_all add: k(2))
  have "J (model (fst s))"
  proof (rule startGame_invariant [where J = J and rs = rs' and s = s])
    show "startGame (GameController_new m) rs' t0 t1 = Inr s" by (rule s)
    show "J w'" if "createGameObjects w rs' = Inr (w', ds')" for w w' ds'
      using cr [OF d' that] .
  qed (use st up in auto)
  then show ?thesis
    by (rule run_invariant [where J = J, rotated 3]) (use st ks up r in auto)
qed

lemma main_total:
  assumes "list_all unitDraw rs" "68 \<le> length rs"
  shows "\<exists>s. main rs t0 t1 = Inr s"
proof -
  from assms have d34: "34 \<le> length rs" by simp
  from createGameObjects_spec [OF assms(1) d34, of "emptyModel 800 700"] obtain m k where
    k: "k \<le> 34" and m: "createGameObjects (emptyModel 800 700) rs = Inr (m, drop k rs)"
    by blast
  from startGame_total [OF drop_draws [OF assms k], of "GameController_new m" t0 t1] m
  show ?thesis by (auto simp: main_Inr)
qed

lemma play_wellFormed:
  assumes "list_all unitDraw rs" "68 \<le> length rs" "play rs t0 t1 es = Inr s'"
  shows "wellFormed (model (fst s'))"
proof (rule play_invariant [where J = wellFormed, OF assms(1,2) _ _ _ _ assms(3)])
  show "wellFormed (w\<lparr>gameState := Lost\<rparr>)" if "wellFormed w" for w
    using that wellFormed_cong [of "w\<lparr>gameState := Lost\<rparr>" w] by simp
  show "wellFormed (w\<lparr>keys := f\<rparr>)" if "wellFormed w" for w f
    using that wellFormed_cong [of "w\<lparr>keys := f\<rparr>" w] by simp
qed (auto intro: createGameObjects_result(1) wellFormed_update)

text \<open>An execution of the page on enough random numbers never throws.\<close>

lemma play_total:
  assumes "list_all unitDraw rs" "68 \<le> length rs"
  shows "\<exists>s'. play rs t0 t1 es = Inr s'"
proof -
  from main_total [OF assms] obtain s where s: "main rs t0 t1 = Inr s" by blast
  then have "play rs t0 t1 [] = Inr s" by (simp add: play_def)
  from play_wellFormed [OF assms this] have "player (model (fst s)) \<noteq> None"
    by (simp add: wellFormed_player)
  from run_total [OF this, of es] s show ?thesis by (auto simp: play_Inr)
qed

text \<open>
  The flag of a round tells whether the state is \<open>'playing'\<close>: the next frame is
  requested exactly then.
\<close>

lemma handleEvent_flag:
  assumes "snd s \<longleftrightarrow> gameState (model (fst s)) = Playing" "handleEvent s e = Inr s'"
  shows "snd s' \<longleftrightarrow> gameState (model (fst s')) = Playing"
  using assms
  by (cases s; cases s'; cases e)
     (auto simp: gameLoop_Inr handleKeyDown_def handleKeyUp_def split: if_splits)

lemma run_flag:
  "(snd s \<longleftrightarrow> gameState (model (fst s)) = Playing) \<Longrightarrow> run s es = Inr s' \<Longrightarrow>
   (snd s' \<longleftrightarrow> gameState (model (fst s')) = Playing)"
proof (induction es arbitrary: s)
  case Nil
  then show ?case by simp
next
  case (Cons e es)
  from Cons.prems(2) obtain s1 where e: "handleEvent s e = Inr s1" and r: "run s1 es = Inr s'"
    by (auto split: sum.splits)
  from Cons.IH [OF handleEvent_flag [OF Cons.prems(1) e] r] show ?case .
qed

lemma play_flag:
  assumes "play rs t0 t1 es = Inr s'"
  shows "snd s' \<longleftrightarrow> gameState (model (fst s')) = Playing"
proof -
  from assms obtain s where s: "main rs t0 t1 = Inr s" and r: "run s es = Inr s'"
    by (auto simp: play_Inr)
  from s have "snd s \<longleftrightarrow> gameState (model (fst s)) = Playing"
    by (cases s) (auto simp: main_Inr startGame_Inr gameLoop_Inr)
  from run_flag [OF this r] show ?thesis .
qed

lemma handleEvent_ended:
  assumes "\<not> snd s" "handleEvent s e = Inr s'"
  shows "\<not> snd s' \<and> gameState (model (fst s')) = gameState (model (fst s))"
  using assms by (cases s; cases e) (auto simp: handleKeyDown_def handleKeyUp_def)

lemma run_ended:
  "\<not> snd s \<Longrightarrow> run s es = Inr s' \<Longrightarrow>
   \<not> snd s' \<and> gameState (model (fst s')) = gameState (model (fst s))"
proof (induction es arbitrary: s)
  case Nil
  then show ?case by simp
next
  case (Cons e es)
  from Cons.prems(2) obtain s1 where e: "handleEvent s e = Inr s1" and r: "run s1 es = Inr s'"
    by (auto split: sum.splits)
  from handleEvent_ended [OF Cons.prems(1) e] Cons.IH [OF _ r] show ?case by simp
qed

lemma run_append:
  "run s (es @ es') = (case run s es of Inl e \<Rightarrow> Inl e | Inr s1 \<Rightarrow> run s1 es')"
  by (induction es arbitrary: s) (auto split: sum.splits)

lemma play_append:
  "play rs t0 t1 (es @ es') = (case play rs t0 t1 es of Inl e \<Rightarrow> Inl e | Inr s1 \<Rightarrow> run s1 es')"
  by (simp add: play_def run_append split: sum.splits)

lemma play_times:
  assumes "play rs t0 t1 es = Inr s'"
  shows "startTime (fst s') = t0 \<and> gameDuration (fst s') = 60000"
proof -
  from assms obtain s where s: "main rs t0 t1 = Inr s" and r: "run s es = Inr s'"
    by (auto simp: play_Inr)
  from s obtain c0 where "gameLoop (c0\<lparr>startTime := t0, gameDuration := 60000\<rparr>) t1 = Inr s"
    unfolding main_Inr startGame_Inr
    by (metis GameController.update_convs(1) GameController.update_convs(2) GameController.update_convs(3))
  from gameLoop_times [OF this] have "startTime (fst s) = t0 \<and> gameDuration (fst s) = 60000"
    by simp
  with run_times [OF r] show ?thesis by simp
qed

text \<open>Every entity of a round has the one fixed size.\<close>

definition uniformSize :: "GameModel \<Rightarrow> bool" where
  "uniformSize w = list_all (\<lambda>r. t_size (heap w r) = size0) (gameObjects w)"

lemma uniformSize_update:
  assumes "uniformSize w" "update w = Inr w'"
  shows "uniformSize w'"
proof -
  from assms(2) obtain p where
    w': "w' = checkGameOver (checkCollisions (w\<lparr>heap := (heap w)(p := movePlayer (keys w) (heap w p))\<rparr>))"
    by (auto simp: update_Inr updatePlayer_Inr)
  let ?w1 = "w\<lparr>heap := (heap w)(p := movePlayer (keys w) (heap w p))\<rparr>"
  have "\<forall>r\<in>set (gameObjects ?w1). t_size (heap ?w1 r) = size0"
    using assms(1) by (auto simp: uniformSize_def list_all_iff)
  with checkCollisions_subset [of ?w1]
  have "\<forall>r\<in>set (gameObjects (checkCollisions ?w1)). t_size (heap ?w1 r) = size0"
    by blast
  then show ?thesis by (simp add: w' uniformSize_def list_all_iff)
qed

lemma play_uniformSize:
  assumes "list_all unitDraw rs" "68 \<le> length rs" "play rs t0 t1 es = Inr s'"
  shows "uniformSize (model (fst s'))"
proof (rule play_invariant [where J = uniformSize, OF assms(1,2) _ _ _ _ assms(3)])
  show "uniformSize w'"
    if "list_all unitDraw ds" "34 \<le> length ds" "createGameObjects w ds = Inr (w', ds')"
    for w ds w' ds'
    using createGameObjects_spec [OF that(1,2), of w] that(3)
    by (auto simp: uniformSize_def list_all_iff spawned_def)
qed (auto simp: uniformSize_def intro: uniformSize_update [unfolded uniformSize_def])

section \<open>How far the player can go\<close>







section \<open>A round played out\<close>

text \<open>
  Random numbers for one spawn: they put the player at \<open>(0.895, 0)\<close>, the red
  triangles at \<open>(0.895, 0.09)\<close> and \<open>(0, 0.5)\<close>, and the seven others at
  \<open>(0.845, 0)\<close>; two of the colour draws hit red and are drawn again. The last
  twelve are not read.
\<close>

definition roundDraws :: "real list" where
  "roundDraws =
     [359 / 360, 1 / 2,  359 / 360, 11 / 20,  1 / 2, 7 / 9,
      349 / 360, 1 / 2, 3 / 4,
      349 / 360, 1 / 2, 0, 1 / 2,
      349 / 360, 1 / 2, 1 / 2,
      349 / 360, 1 / 2, 1 / 4,
      349 / 360, 1 / 2, 1 / 3,
      349 / 360, 1 / 2, 9 / 10,
      349 / 360, 1 / 2, 1 / 10, 0] @
     replicate 12 (1 / 2)"

text \<open>
  Random numbers for one execution of the page: 27 for the constructor, then those of
  \<open>roundDraws\<close> for \<open>initializeGame\<close>.
\<close>

definition demoDraws :: "real list" where
  "demoDraws = replicate 27 (1 / 2) @ roundDraws"

text \<open>
  That round two ticks in, with the up and right arrow keys held: the player (object
  10), the two red triangles (11 and 12) and one green triangle left to collect (16).
  Objects 0 to 9 are the ones the constructor made; \<open>initializeGame\<close> dropped them
  from the collection.
\<close>

definition demoWorld :: GameModel where
  "demoWorld =
     \<lparr>canvasWidth = 800, canvasHeight = 700,
      gameObjects = [10, 11, 12, 16], gameState = Playing, score = 60,
      keys = (\<lambda>k. False)(''ArrowUp'' := True, ''ArrowRight'' := True),
      player = Some 10,
      heap =
        (\<lambda>r. blank)
          (1 := \<lparr>t_x = 0, t_y = 0, t_size = 1 / 10, t_color = (1, 0, 0, 1)\<rparr>,
           2 := \<lparr>t_x = 0, t_y = 0, t_size = 1 / 10, t_color = (1, 0, 0, 1)\<rparr>,
           3 := \<lparr>t_x = 0, t_y = 0, t_size = 1 / 10, t_color = (1, 1, 0, 1)\<rparr>,
           4 := \<lparr>t_x = 0, t_y = 0, t_size = 1 / 10, t_color = (1, 1, 0, 1)\<rparr>,
           5 := \<lparr>t_x = 0, t_y = 0, t_size = 1 / 10, t_color = (1, 1, 0, 1)\<rparr>,
           6 := \<lparr>t_x = 0, t_y = 0, t_size = 1 / 10, t_color = (1, 1, 0, 1)\<rparr>,
           7 := \<lparr>t_x = 0, t_y = 0, t_size = 1 / 10, t_color = (1, 1, 0, 1)\<rparr>,
           8 := \<lparr>t_x = 0, t_y = 0, t_size = 1 / 10, t_color = (1, 1, 0, 1)\<rparr>,
           9 := \<lparr>t_x = 0, t_y = 0, t_size = 1 / 10, t_color = (1, 1, 0, 1)\<rparr>,
           0 := \<lparr>t_x = 0, t_y = 0, t_size = 1 / 10, t_color = (0, 1, 0, 1)\<rparr>,
           11 := \<lparr>t_x = 179 / 200, t_y = 9 / 100, t_size = 1 / 10, t_color = (1, 0, 0, 1)\<rparr>,
           12 := \<lparr>t_x = 0, t_y = 1 / 2, t_size = 1 / 10, t_color = (1, 0, 0, 1)\<rparr>,
           13 := \<lparr>t_x = 169 / 200, t_y = 0, t_size = 1 / 10, t_color = (1, 0, 1, 1)\<rparr>,
           14 := \<lparr>t_x = 169 / 200, t_y = 0, t_size = 1 / 10, t_color = (1, 1, 0, 1)\<rparr>,
           15 := \<lparr>t_x = 169 / 200, t_y = 0, t_size = 1 / 10, t_color = (1, 1, 0, 1)\<rparr>,
           16 := \<lparr>t_x = 169 / 200, t_y = 0, t_size = 1 / 10, t_color = (0, 1, 0, 1)\<rparr>,
           17 := \<lparr>t_x = 169 / 200, t_y = 0, t_size = 1 / 10, t_color = (0, 0, 1, 1)\<rparr>,
           18 := \<lparr>t_x = 169 / 200, t_y = 0, t_size = 1 / 10, t_color = (0, 1, 1, 1)\<rparr>,
           19 := \<lparr>t_x = 169 / 200, t_y = 0, t_size = 1 / 10, t_color = (0, 1, 0, 1)\<rparr>,
           10 := \<lparr>t_x = 179 / 200, t_y = 0, t_size = 1 / 10, t_color = (0, 1, 0, 1)\<rparr>),
      fresh = 20\<rparr>"

definition demoRound :: GameController where
  "demoRound = \<lparr>model = demoWorld, startTime = 0, gameDuration = 60000\<rparr>"

lemma replicate_numeral: "replicate (numeral k) x = x # replicate (pred_numeral k) x"
  by (simp add: numeral_eq_Suc)

lemmas spawn_eval =
  createGameObjects_def initializeGame_def GameModel_new_def emptyModel_def
  new_Triangle_def push_def colors_at_def colors_def randomCoord_def padding_def size0_def
  redLoop_numeral colorLoop_numeral numeral_2_eq_2 [symmetric] replicate_numeral

lemmas tick_eval =
  update_def updatePlayer_def movePlayer_def checkCollisions_def checkCollisions_log_def
  collideOuter.simps collideInner.simps collideStep_def isColliding_sq handleCollision_def
  checkGameOver_def Let_def

lemmas drive_eval =
  play_def main_def startGame_def GameController_new_def gameLoop_def timeoutCheck_def
  remainingTime_def handleKeyDown_def handleKeyUp_def

lemma roundDraws_valid: "list_all unitDraw roundDraws" "length roundDraws = 41"
  by (simp_all add: roundDraws_def unitDraw_def list_all_iff)

lemma demoDraws_valid: "list_all unitDraw demoDraws" "length demoDraws = 68"
  using roundDraws_valid by (simp_all add: demoDraws_def unitDraw_def list_all_iff)

lemma demo_reach:
  "play demoDraws 0 16 [Frame 32, KeyDown ''ArrowUp'', KeyDown ''ArrowRight''] = Inr (demoRound, True)"
  by (simp add: demoDraws_def roundDraws_def spawn_eval drive_eval tick_eval demoRound_def
      demoWorld_def)

text \<open>The third tick of that round: the move of the player, the collision pass, the win check.\<close>

definition demoMoved :: GameModel where
  "demoMoved =
     demoWorld\<lparr>heap := (heap demoWorld)
       (10 := \<lparr>t_x = 181 / 200, t_y = 1 / 100, t_size = 1 / 10, t_color = (0, 1, 0, 1)\<rparr>)\<rparr>"

lemma demo_move: "updatePlayer demoWorld = Inr demoMoved"
  by (simp add: demoMoved_def demoWorld_def updatePlayer_def movePlayer_def Let_def)

lemma demo_hit: "isColliding (heap demoMoved 10) (heap demoMoved 11)"
  by (simp add: demoMoved_def demoWorld_def isColliding_sq)

lemma demo_pass:
  "checkCollisions_log demoMoved =
     (demoMoved\<lparr>gameState := Lost, score := 70, gameObjects := [10, 11, 12]\<rparr>,
      [(10, 11), (10, 12), (10, 16), (11, 12)])"
  by (simp add: demoMoved_def demoWorld_def tick_eval)

lemma demo_end:
  "update demoWorld = Inr (demoMoved\<lparr>gameState := Won, score := 70, gameObjects := [10, 11, 12]\<rparr>)"
proof -
  have "update demoWorld = Inr (checkGameOver (checkCollisions demoMoved))"
    by (simp add: update_def demo_move)
  moreover have "checkCollisions demoMoved
      = demoMoved\<lparr>gameState := Lost, score := 70, gameObjects := [10, 11, 12]\<rparr>"
    by (simp add: checkCollisions_def demo_pass)
  moreover have "checkGameOver (demoMoved\<lparr>gameState := Lost, score := 70, gameObjects := [10, 11, 12]\<rparr>)
      = demoMoved\<lparr>gameState := Won, score := 70, gameObjects := [10, 11, 12]\<rparr>"
    by (simp add: checkGameOver_def Let_def demoMoved_def demoWorld_def)
  ultimately show ?thesis by simp
qed

definition demoEnd :: GameModel where
  "demoEnd = demoMoved\<lparr>gameState := Won, score := 70, gameObjects := [10, 11, 12]\<rparr>"

lemma demo_final:
  "play demoDraws 0 16 [Frame 32, KeyDown ''ArrowUp'', KeyDown ''ArrowRight'', Frame 48]
     = Inr (demoRound\<lparr>model := demoEnd\<rparr>, False)"
proof -
  have "gameLoop demoRound 48 = Inr (demoRound\<lparr>model := demoEnd\<rparr>, False)"
    by (simp add: gameLoop_def timeoutCheck_def remainingTime_def demoRound_def demo_end demoEnd_def)
  then have "run (demoRound, True) [Frame 48] = Inr (demoRound\<lparr>model := demoEnd\<rparr>, False)"
    by simp
  with play_append [of demoDraws 0 16 "[Frame 32, KeyDown ''ArrowUp'', KeyDown ''ArrowRight'']" "[Frame 48]"]
  show ?thesis by (simp add: demo_reach)
qed

lemma demoWorld_wellFormed: "wellFormed demoWorld"
  by (simp add: wellFormed_def demoWorld_def)

text \<open>The demonstration round with both keys released again, and its tick at the time limit.\<close>

definition demoIdle :: GameController where
  "demoIdle = demoRound\<lparr>model := handleKeyUp (handleKeyUp demoWorld ''ArrowUp'') ''ArrowRight''\<rparr>"

definition demoLate :: GameModel where
  "demoLate = (model demoIdle)\<lparr>gameState := Won, score := 70, gameObjects := [10, 11, 12]\<rparr>"

lemma demo_idle:
  "play demoDraws 0 16
     [Frame 32, KeyDown ''ArrowUp'', KeyDown ''ArrowRight'', KeyUp ''ArrowUp'', KeyUp ''ArrowRight'']
     = Inr (demoIdle, True)"
proof -
  have "run (demoRound, True) [KeyUp ''ArrowUp'', KeyUp ''ArrowRight''] = Inr (demoIdle, True)"
    by (simp add: demoIdle_def demoRound_def)
  with play_append [of demoDraws 0 16 "[Frame 32, KeyDown ''ArrowUp'', KeyDown ''ArrowRight'']"
      "[KeyUp ''ArrowUp'', KeyUp ''ArrowRight'']"]
  show ?thesis by (simp add: demo_reach)
qed

lemma demo_timeout: "gameLoop demoIdle 60000 = Inr (demoIdle\<lparr>model := demoLate\<rparr>, False)"
  by (simp add: gameLoop_def timeoutCheck_def remainingTime_def demoLate_def demoIdle_def
      demoRound_def demoWorld_def handleKeyUp_def tick_eval)

section \<open>Claim C1: the terminal state within a round\<close>

text \<open>
  Claim C1, as amended. Within a round the terminal state never reverts to ACTIVE: no
  update sets it to ACTIVE. It is final when a tick ends: once it is WON or LOST at the
  end of a tick, no further tick is scheduled and it keeps that same value through
  every later event of the round. Inside a tick, a state that is LOST when the update
  begins ends that update LOST, unless exactly one entity that is not red is left in
  the collection: then the win check sets WON.
\<close>

theorem terminal_state_final_at_tick_end:
  assumes "play rs t0 t1 es = Inr (c1, rq1)" and "gameState (model c1) \<noteq> Playing"
    and "run (c1, rq1) es' = Inr (c2, rq2)"
  shows "gameState (model c2) = gameState (model c1) \<and> \<not> rq2
     \<and> (\<forall>w w'. update w = Inr w' \<and> gameState w \<noteq> Playing \<longrightarrow> gameState w' \<noteq> Playing)
     \<and> (\<forall>w w'. update w = Inr w' \<and> gameState w = Lost \<longrightarrow>
            gameState w' = (if nonRedCount w' = 1 then Won else Lost))"
proof -
  from play_flag [OF assms(1)] assms(2) have "\<not> snd (c1, rq1)" by simp
  from run_ended [OF this assms(3)]
  have "gameState (model c2) = gameState (model c1) \<and> \<not> rq2" by simp
  then show ?thesis using update_not_Playing update_from_Lost by blast
qed

theorem terminal_state_final_at_tick_end_witness:
  "play demoDraws 0 16 [Frame 32, KeyDown ''ArrowUp'', KeyDown ''ArrowRight'', Frame 48]
     = Inr (demoRound\<lparr>model := demoEnd\<rparr>, False)
   \<and> gameState (model (demoRound\<lparr>model := demoEnd\<rparr>)) \<noteq> Playing
   \<and> run (demoRound\<lparr>model := demoEnd\<rparr>, False) [Frame 64, KeyUp ''ArrowUp'']
       = Inr (demoRound\<lparr>model := handleKeyUp demoEnd ''ArrowUp''\<rparr>, False)
   \<and> gameState (model (demoRound\<lparr>model := handleKeyUp demoEnd ''ArrowUp''\<rparr>))
       = gameState (model (demoRound\<lparr>model := demoEnd\<rparr>))"
proof -
  have e: "gameState (model (demoRound\<lparr>model := demoEnd\<rparr>)) \<noteq> Playing"
    by (simp add: demoEnd_def)
  have r: "run (demoRound\<lparr>model := demoEnd\<rparr>, False) [Frame 64, KeyUp ''ArrowUp'']
       = Inr (demoRound\<lparr>model := handleKeyUp demoEnd ''ArrowUp''\<rparr>, False)"
    by simp
  from terminal_state_final_at_tick_end [OF demo_final e r] demo_final e r
  show ?thesis by simp
qed

text \<open>
  Against claim C1 as stated: in the third tick of the demonstration round the
  collision pass sets the state to LOST (the player touches the red triangle 11), and
  the win check of the same update then changes it to WON.
\<close>

theorem terminal_state_lost_then_won:
  "play demoDraws 0 16 [Frame 32, KeyDown ''ArrowUp'', KeyDown ''ArrowRight''] = Inr (demoRound, True)
   \<and> updatePlayer (model demoRound) = Inr demoMoved
   \<and> gameState (checkCollisions demoMoved) = Lost
   \<and> update (model demoRound) = Inr (checkGameOver (checkCollisions demoMoved))
   \<and> gameState (checkGameOver (checkCollisions demoMoved)) = Won"
proof -
  have m: "model demoRound = demoWorld" by (simp add: demoRound_def)
  have c: "checkCollisions demoMoved
      = demoMoved\<lparr>gameState := Lost, score := 70, gameObjects := [10, 11, 12]\<rparr>"
    by (simp add: checkCollisions_def demo_pass)
  have u: "update demoWorld = Inr (checkGameOver (checkCollisions demoMoved))"
    by (simp add: update_def demo_move)
  with demo_end have "checkGameOver (checkCollisions demoMoved)
      = demoMoved\<lparr>gameState := Won, score := 70, gameObjects := [10, 11, 12]\<rparr>"
    by simp
  then have "gameState (checkGameOver (checkCollisions demoMoved)) = Won" by simp
  moreover have "gameState (checkCollisions demoMoved) = Lost" by (simp add: c)
  ultimately show ?thesis using demo_reach demo_move u by (simp add: m)
qed

section \<open>Claim C2: collisions with a hazard\<close>

text \<open>
  Claim C2, as amended. In every tick of a round (a tick on a well-formed world) in
  which the player, where its move has put it, collides with a red triangle of the
  collection: handling that pair sets the state to LOST, removes nothing and adds no
  score; the state is LOST when the collision pass ends; the red triangle is still in
  the collection; and the tick ends LOST, unless exactly one entity that is not red is
  left: then the win check sets WON. The collection and the score are not kept as they
  were: if the player also touches a triangle of the collection that is not red, the
  same pass takes at least one triangle out of the collection and adds at least 10 to
  the score.
\<close>

theorem hazard_collision_sets_lost:
  assumes "wellFormed w0" and "updatePlayer w0 = Inr w" and "player w = Some p"
    and "h \<in> set (gameObjects w)" and "isRed (t_color (heap w h))"
    and "isColliding (heap w p) (heap w h)"
  shows "handleCollision w p h = w\<lparr>gameState := Lost\<rparr>
     \<and> gameState (checkCollisions w) = Lost
     \<and> h \<in> set (gameObjects (checkCollisions w))
     \<and> (\<exists>w'. update w0 = Inr w'
            \<and> gameState w' = (if nonRedCount w' = 1 then Won else Lost))
     \<and> (\<forall>c\<in>set (gameObjects w).
           c \<noteq> p \<and> \<not> isRed (t_color (heap w c)) \<and> isColliding (heap w p) (heap w c) \<longrightarrow>
           score w + 10 \<le> score (checkCollisions w)
           \<and> length (gameObjects (checkCollisions w)) < length (gameObjects w))"
proof -
  from wellFormed_updatePlayer [OF assms(2)] assms(1) have wf: "wellFormed w" by simp
  have lost: "gameState (checkCollisions w) = Lost"
    by (rule hazard_pass_lost [OF wf assms(3-6)])
  have "update w0 = Inr (checkGameOver (checkCollisions w))"
    by (simp add: update_def assms(2))
  moreover have "gameState (checkGameOver (checkCollisions w))
      = (if nonRedCount (checkGameOver (checkCollisions w)) = 1 then Won else Lost)"
    using lost by (simp add: checkGameOver_nonRedCount)
  ultimately have tick: "\<exists>w'. update w0 = Inr w'
      \<and> gameState w' = (if nonRedCount w' = 1 then Won else Lost)"
    by simp
  have takes: "\<forall>c\<in>set (gameObjects w).
      c \<noteq> p \<and> \<not> isRed (t_color (heap w c)) \<and> isColliding (heap w p) (heap w c) \<longrightarrow>
      score w + 10 \<le> score (checkCollisions w)
      \<and> length (gameObjects (checkCollisions w)) < length (gameObjects w)"
    using collectible_pass_takes [OF wf assms(3)] by blast
  from handleCollision_hazard [OF assms(3,5)] lost hazard_stays [OF wf assms(4,5)] tick takes
  show ?thesis by (intro conjI)
qed

theorem hazard_collision_sets_lost_witness:
  "wellFormed demoWorld \<and> updatePlayer demoWorld = Inr demoMoved \<and> player demoMoved = Some 10
   \<and> 11 \<in> set (gameObjects demoMoved) \<and> isRed (t_color (heap demoMoved 11))
   \<and> isColliding (heap demoMoved 10) (heap demoMoved 11)
   \<and> handleCollision demoMoved 10 11 = demoMoved\<lparr>gameState := Lost\<rparr>
   \<and> gameState (checkCollisions demoMoved) = Lost
   \<and> 11 \<in> set (gameObjects (checkCollisions demoMoved))
   \<and> (\<exists>w'. update demoWorld = Inr w'
          \<and> gameState w' = (if nonRedCount w' = 1 then Won else Lost))
   \<and> 16 \<in> set (gameObjects demoMoved) \<and> \<not> isRed (t_color (heap demoMoved 16))
   \<and> isColliding (heap demoMoved 10) (heap demoMoved 16)
   \<and> score demoMoved + 10 \<le> score (checkCollisions demoMoved)
   \<and> length (gameObjects (checkCollisions demoMoved)) < length (gameObjects demoMoved)"
proof -
  have p: "player demoMoved = Some 10" and h: "11 \<in> set (gameObjects demoMoved)"
    and r: "isRed (t_color (heap demoMoved 11))"
    and c: "16 \<in> set (gameObjects demoMoved)" "\<not> isRed (t_color (heap demoMoved 16))"
    by (simp_all add: demoMoved_def demoWorld_def)
  have t: "isColliding (heap demoMoved 10) (heap demoMoved 16)"
    by (simp add: demoMoved_def demoWorld_def isColliding_sq)
  note th = hazard_collision_sets_lost [OF demoWorld_wellFormed demo_move p h r demo_hit]
  have n: "(16 :: ref) \<noteq> 10" by simp
  from th c n t have "score demoMoved + 10 \<le> score (checkCollisions demoMoved)
      \<and> length (gameObjects (checkCollisions demoMoved)) < length (gameObjects demoMoved)"
    by blast
  with th demoWorld_wellFormed demo_move p h r demo_hit c t
  show ?thesis by (intro conjI) blast+
qed

text \<open>
  Against claim C2 as stated: in the third tick of the demonstration round the player
  collides with the red triangle 11 and with the green triangle 16 at once. The pair
  with the hazard is handled first; the pass goes on, removes 16 and adds 10 to the
  score; and the tick ends WON, not LOST.
\<close>

theorem collectible_taken_after_hazard_hit:
  "play demoDraws 0 16 [Frame 32, KeyDown ''ArrowUp'', KeyDown ''ArrowRight''] = Inr (demoRound, True)
   \<and> model demoRound = demoWorld
   \<and> updatePlayer demoWorld = Inr demoMoved \<and> player demoMoved = Some 10
   \<and> isRed (t_color (heap demoMoved 11))
   \<and> isColliding (heap demoMoved 10) (heap demoMoved 11)
   \<and> isColliding (heap demoMoved 10) (heap demoMoved 16)
   \<and> snd (checkCollisions_log demoMoved) = [(10, 11), (10, 12), (10, 16), (11, 12)]
   \<and> update demoWorld = Inr demoEnd
   \<and> gameObjects demoWorld = [10, 11, 12, 16] \<and> gameObjects demoEnd = [10, 11, 12]
   \<and> score demoWorld = 60 \<and> score demoEnd = 70
   \<and> gameState demoEnd = Won"
proof -
  have "isColliding (heap demoMoved 10) (heap demoMoved 16)"
    by (simp add: demoMoved_def demoWorld_def isColliding_sq)
  moreover have "player demoMoved = Some 10" "isRed (t_color (heap demoMoved 11))"
    "gameObjects demoWorld = [10, 11, 12, 16]" "score demoWorld = 60"
    by (simp_all add: demoMoved_def demoWorld_def)
  moreover have "gameObjects demoEnd = [10, 11, 12]" "score demoEnd = 70" "gameState demoEnd = Won"
    by (simp_all add: demoEnd_def)
  moreover have "update demoWorld = Inr demoEnd" by (simp add: demo_end demoEnd_def)
  moreover have "model demoRound = demoWorld" by (simp add: demoRound_def)
  ultimately show ?thesis
    using demo_reach demo_move demo_hit demo_pass by simp
qed

section \<open>Claim C3: the number of hazards spawned\<close>

text \<open>
  Claim C3 says that after the first entity is recoloured green, at least 3 of the
  remaining 9 entities are red. The code does otherwise: every execution of the spawn
  policy leaves exactly 2 red entities, among the 10 and among the 9 after the player,
  because the first of the three red triangles is the one recoloured.
\<close>

theorem spawn_two_hazards:
  assumes "list_all unitDraw rs" and "34 \<le> length rs"
  shows "\<exists>w' rs'. createGameObjects w rs = Inr (w', rs')
     \<and> length (filter (\<lambda>r. isRed (t_color (heap w' r))) (gameObjects w')) = 2
     \<and> length (filter (\<lambda>r. isRed (t_color (heap w' r))) (tl (gameObjects w'))) = 2"
proof -
  let ?f = "fresh w"
  from createGameObjects_spec [OF assms, of w] obtain w' k where
    res: "createGameObjects w rs = Inr (w', drop k rs)"
    and objs: "gameObjects w' = [?f ..< ?f + 10]"
    and gr: "t_color (heap w' ?f) = (0, 1, 0, 1)"
    and h1: "isRed (t_color (heap w' (?f + 1)))"
    and h2: "isRed (t_color (heap w' (?f + 2)))"
    and cs: "\<forall>r. ?f + 3 \<le> r \<and> r < ?f + 10 \<longrightarrow> \<not> isRed (t_color (heap w' r))"
    by blast
  have shape: "gameObjects w' = ?f # (?f + 1) # (?f + 2) # [?f + 3 ..< ?f + 10]"
    by (simp add: objs upt_conv_Cons)
  have rest: "filter (\<lambda>r. isRed (t_color (heap w' r))) [?f + 3 ..< ?f + 10] = []"
    using cs by (simp add: filter_empty_conv)
  have "filter (\<lambda>r. isRed (t_color (heap w' r))) (gameObjects w') = [?f + 1, ?f + 2]"
    using gr h1 h2 by (simp only: shape filter.simps rest) simp
  moreover have "filter (\<lambda>r. isRed (t_color (heap w' r))) (tl (gameObjects w')) = [?f + 1, ?f + 2]"
    using h1 h2 by (simp only: shape list.sel filter.simps rest) simp
  ultimately show ?thesis
    using res by auto
qed

theorem spawn_two_hazards_witness:
  "list_all unitDraw demoDraws \<and> 34 \<le> length demoDraws
   \<and> (\<exists>w' rs'. createGameObjects (emptyModel 800 700) demoDraws = Inr (w', rs')
        \<and> length (filter (\<lambda>r. isRed (t_color (heap w' r))) (gameObjects w')) = 2
        \<and> length (filter (\<lambda>r. isRed (t_color (heap w' r))) (tl (gameObjects w'))) = 2)"
  using spawn_two_hazards [of demoDraws "emptyModel 800 700"] demoDraws_valid by simp

section \<open>Claim C4: bounds of the player movement\<close>




section \<open>Claim C5: the pairs one collision pass compares\<close>

text \<open>The world the constructor makes from \<open>roundDraws\<close>.\<close>

definition demoSpawn :: GameModel where
  "demoSpawn = fst (projr (GameModel_new 800 700 roundDraws))"

text \<open>
  Claim C5 says that one collision pass compares every unordered pair of the entities
  live at its start exactly once. The code does otherwise. In the world the constructor
  makes from \<open>roundDraws\<close> the player (object 0) touches all seven triangles 3 to 9.
  The pass compares it with 3, splices 3 out, and goes on with the next index, which
  now holds 5: the pair of the player and 4 is never compared, nor are those with 6 and
  8, and the three are still in the collection when the pass ends. Of the 45 pairs the
  pass compares 16.
\<close>

theorem collision_pass_skips_pairs:
  "\<not> isl (GameModel_new 800 700 roundDraws)
   \<and> gameObjects demoSpawn = [0, 1, 2, 3, 4, 5, 6, 7, 8, 9]
   \<and> player demoSpawn = Some 0
   \<and> isColliding (heap demoSpawn 0) (heap demoSpawn 4)
   \<and> checkCollisions_log demoSpawn =
       (demoSpawn\<lparr>score := 40, gameObjects := [0, 1, 2, 4, 6, 8]\<rparr>,
        [(0, 1), (0, 2), (0, 3), (0, 5), (0, 7), (0, 9),
         (1, 2), (1, 4), (1, 6), (1, 8), (2, 4), (2, 6), (2, 8), (4, 6), (4, 8), (6, 8)])
   \<and> (0, 4) \<notin> set (snd (checkCollisions_log demoSpawn))
   \<and> (4, 0) \<notin> set (snd (checkCollisions_log demoSpawn))"
proof -
  have a: "\<not> isl (GameModel_new 800 700 roundDraws)"
    by (simp add: roundDraws_def spawn_eval)
  have b: "gameObjects demoSpawn = [0, 1, 2, 3, 4, 5, 6, 7, 8, 9]" "player demoSpawn = Some 0"
    by (simp_all add: demoSpawn_def roundDraws_def spawn_eval)
  have c: "isColliding (heap demoSpawn 0) (heap demoSpawn 4)"
    by (simp add: demoSpawn_def roundDraws_def spawn_eval isColliding_sq)
  have d: "checkCollisions_log demoSpawn =
       (demoSpawn\<lparr>score := 40, gameObjects := [0, 1, 2, 4, 6, 8]\<rparr>,
        [(0, 1), (0, 2), (0, 3), (0, 5), (0, 7), (0, 9),
         (1, 2), (1, 4), (1, 6), (1, 8), (2, 4), (2, 6), (2, 8), (4, 6), (4, 8), (6, 8)])"
    by (simp add: demoSpawn_def roundDraws_def spawn_eval tick_eval)
  have e: "(0, 4) \<notin> set (snd (checkCollisions_log demoSpawn))"
    "(4, 0) \<notin> set (snd (checkCollisions_log demoSpawn))"
    by (simp_all add: d)
  show ?thesis
    by (intro conjI) (rule a b c d e)+
qed

section \<open>Claim C6: the tick at the time limit\<close>

text \<open>
  Claim C6, as amended. For every tick of a round at which the elapsed time is at least
  60000 ms: the terminal state is set to LOST before the world is updated; the tick ends
  LOST, unless its update leaves exactly one entity that is not red in the collection:
  then the win check sets WON; and the loop schedules no further tick.
\<close>

theorem timeout_sets_lost_and_stops:
  assumes "list_all unitDraw rs" and "68 \<le> length rs"
    and "play rs t0 t1 es = Inr (c, rq)" and "60000 \<le> now - startTime c"
  shows "gameState (model (timeoutCheck c now)) = Lost
     \<and> (\<exists>c'. gameLoop c now = Inr (c', False)
            \<and> gameState (model c') = (if nonRedCount (model c') = 1 then Won else Lost))"
proof -
  from play_times [OF assms(3)] have d: "gameDuration c = 60000" by simp
  with assms(4) have "remainingTime c now \<le> 0"
    by (simp add: remainingTime_def Let_def)
  then have lost: "gameState (model (timeoutCheck c now)) = Lost"
    and m: "model (timeoutCheck c now) = (model c)\<lparr>gameState := Lost\<rparr>"
    by (simp_all add: timeoutCheck_def)
  from play_wellFormed [OF assms(1-3)] have "player (model c) \<noteq> None"
    by (simp add: wellFormed_player)
  then have "player (model (timeoutCheck c now)) \<noteq> None" by (simp add: m)
  from update_total [OF this] obtain w' where w': "update (model (timeoutCheck c now)) = Inr w'"
    by blast
  from update_from_Lost [OF w' lost]
  have fin: "gameState w' = (if nonRedCount w' = 1 then Won else Lost)" .
  then have "gameState w' \<noteq> Playing" by simp
  with w' fin have "gameLoop c now = Inr ((timeoutCheck c now)\<lparr>model := w'\<rparr>, False)
      \<and> gameState (model ((timeoutCheck c now)\<lparr>model := w'\<rparr>))
          = (if nonRedCount (model ((timeoutCheck c now)\<lparr>model := w'\<rparr>)) = 1 then Won else Lost)"
    by (simp add: gameLoop_def Let_def)
  with lost show ?thesis by blast
qed

theorem timeout_sets_lost_and_stops_witness:
  "list_all unitDraw demoDraws \<and> 68 \<le> length demoDraws
   \<and> play demoDraws 0 16
       [Frame 32, KeyDown ''ArrowUp'', KeyDown ''ArrowRight'', KeyUp ''ArrowUp'', KeyUp ''ArrowRight'']
       = Inr (demoIdle, True)
   \<and> 60000 \<le> 60000 - startTime demoIdle
   \<and> gameState (model (timeoutCheck demoIdle 60000)) = Lost
   \<and> (\<exists>c'. gameLoop demoIdle 60000 = Inr (c', False)
          \<and> gameState (model c') = (if nonRedCount (model c') = 1 then Won else Lost))"
proof -
  have t: "60000 \<le> 60000 - startTime demoIdle"
    by (simp add: demoIdle_def demoRound_def)
  have l: "68 \<le> length demoDraws" by (simp add: demoDraws_valid)
  from timeout_sets_lost_and_stops [OF demoDraws_valid(1) l demo_idle t]
    demoDraws_valid(1) l demo_idle t
  show ?thesis by simp
qed

text \<open>
  Against claim C6 as stated: the demonstration round, keys released, reaches its time
  limit with the state ACTIVE. The tick at 60000 ms sets LOST; its update then collects
  the last triangle (16, which the player still touches) and its win check sets WON:
  the tick ends WON, not LOST. No further tick is scheduled.
\<close>

theorem timeout_tick_ends_won:
  "play demoDraws 0 16
     [Frame 32, KeyDown ''ArrowUp'', KeyDown ''ArrowRight'', KeyUp ''ArrowUp'', KeyUp ''ArrowRight'']
     = Inr (demoIdle, True)
   \<and> gameState (model demoIdle) = Playing
   \<and> startTime demoIdle = 0 \<and> gameDuration demoIdle = 60000
   \<and> gameState (model (timeoutCheck demoIdle 60000)) = Lost
   \<and> gameLoop demoIdle 60000 = Inr (demoIdle\<lparr>model := demoLate\<rparr>, False)
   \<and> gameState demoLate = Won"
proof -
  have "gameState (model demoIdle) = Playing" "startTime demoIdle = 0" "gameDuration demoIdle = 60000"
    by (simp_all add: demoIdle_def demoRound_def demoWorld_def handleKeyUp_def)
  moreover have "gameState (model (timeoutCheck demoIdle 60000)) = Lost"
    by (simp add: timeoutCheck_def remainingTime_def demoIdle_def demoRound_def)
  moreover have "gameState demoLate = Won" by (simp add: demoLate_def)
  ultimately show ?thesis using demo_idle demo_timeout by simp
qed

section \<open>Claim C7: the player entity\<close>

text \<open>
  Claim C7, as amended. After initialization and after every update of a round, exactly
  one entity of the collection is the player: the object the model's \<open>player\<close>
  field refers to. It is the first of the collection and its colour is opaque green
  \<open>(0, 1, 0, 1)\<close>; no update changes the colour of any object. The colour does not
  single the player out: the palette contains green, so other entities can be opaque
  green too.
\<close>

theorem player_unique_first_green:
  assumes "list_all unitDraw rs" and "68 \<le> length rs" and "play rs t0 t1 es = Inr (c, rq)"
  shows "(\<exists>p. player (model c) = Some p
            \<and> count_list (gameObjects (model c)) p = 1
            \<and> hd (gameObjects (model c)) = p
            \<and> t_color (heap (model c) p) = (0, 1, 0, 1))
         \<and> (\<forall>w w' r. update w = Inr w' \<longrightarrow> t_color (heap w' r) = t_color (heap w r))"
proof
  from play_wellFormed [OF assms] have "wellFormed (model c)" by simp
  then obtain p h1 h2 cs where
    objs: "gameObjects (model c) = p # h1 # h2 # cs" and pl: "player (model c) = Some p"
    and d: "distinct (p # h1 # h2 # cs)" and g: "t_color (heap (model c) p) = (0, 1, 0, 1)"
    by (auto simp: wellFormed_iff)
  from d have "p \<notin> set (h1 # h2 # cs)" by simp
  then have "count_list (h1 # h2 # cs) p = 0" by (rule count_notin)
  then have "count_list (gameObjects (model c)) p = 1" by (simp add: objs)
  with objs pl g
  show "\<exists>p. player (model c) = Some p
            \<and> count_list (gameObjects (model c)) p = 1
            \<and> hd (gameObjects (model c)) = p
            \<and> t_color (heap (model c) p) = (0, 1, 0, 1)"
    by simp
next
  show "\<forall>w w' r. update w = Inr w' \<longrightarrow> t_color (heap w' r) = t_color (heap w r)"
    by (auto simp: update_Inr updatePlayer_Inr)
qed

theorem player_unique_first_green_witness:
  "list_all unitDraw demoDraws \<and> 68 \<le> length demoDraws
   \<and> play demoDraws 0 16 [Frame 32, KeyDown ''ArrowUp'', KeyDown ''ArrowRight''] = Inr (demoRound, True)
   \<and> (\<exists>p. player (model demoRound) = Some p
          \<and> count_list (gameObjects (model demoRound)) p = 1
          \<and> hd (gameObjects (model demoRound)) = p
          \<and> t_color (heap (model demoRound) p) = (0, 1, 0, 1))"
  using player_unique_first_green [OF demoDraws_valid(1) _ demo_reach] demoDraws_valid demo_reach
  by simp

text \<open>
  Against claim C7 as stated: in the demonstration round, two entities of the live
  collection are opaque green, the player (object 10) and the triangle still to be
  collected (object 16).
\<close>

theorem two_green_entities:
  "play demoDraws 0 16 [Frame 32, KeyDown ''ArrowUp'', KeyDown ''ArrowRight''] = Inr (demoRound, True)
   \<and> gameObjects (model demoRound) = [10, 11, 12, 16]
   \<and> player (model demoRound) = Some 10
   \<and> t_color (heap (model demoRound) 10) = (0, 1, 0, 1)
   \<and> t_color (heap (model demoRound) 16) = (0, 1, 0, 1)"
  by (simp add: demo_reach) (simp add: demoRound_def demoWorld_def)

section \<open>Claim C8: count and positions of the spawned entities\<close>

text \<open>
  Claim C8. Every execution of the spawn policy produces exactly 10 entities, and every
  entity's position, the player's included, lies within \<open>[-1 + s, 1 - s]\<close> on each axis,
  where \<open>s = 0.1\<close> is the fixed entity size. An execution is \<open>createGameObjects\<close> on
  numbers that \<open>Math.random()\<close> can return, as many as it may ask for (at most 34).
\<close>

theorem spawn_ten_in_bounds:
  assumes "list_all unitDraw rs" and "34 \<le> length rs"
  shows "\<exists>w' rs'. createGameObjects w rs = Inr (w', rs')
     \<and> length (gameObjects w') = 10
     \<and> (\<forall>r\<in>set (gameObjects w').
           t_size (heap w' r) = 1 / 10
           \<and> - 1 + 1 / 10 \<le> t_x (heap w' r) \<and> t_x (heap w' r) \<le> 1 - 1 / 10
           \<and> - 1 + 1 / 10 \<le> t_y (heap w' r) \<and> t_y (heap w' r) \<le> 1 - 1 / 10)"
proof -
  from createGameObjects_spec [OF assms, of w] obtain w' k where
    res: "createGameObjects w rs = Inr (w', drop k rs)"
    and objs: "gameObjects w' = [fresh w ..< fresh w + 10]"
    and sp: "\<forall>r. fresh w \<le> r \<and> r < fresh w + 10 \<longrightarrow> spawned (heap w' r)"
    by blast
  have "length (gameObjects w') = 10" by (simp add: objs)
  moreover have "\<forall>r\<in>set (gameObjects w'). spawned (heap w' r)"
    using sp by (simp add: objs)
  ultimately show ?thesis
    using res by (auto simp: spawned_def size0_def)
qed

theorem spawn_ten_in_bounds_witness:
  "list_all unitDraw demoDraws \<and> 34 \<le> length demoDraws
   \<and> (\<exists>w' rs'. createGameObjects (emptyModel 800 700) demoDraws = Inr (w', rs')
        \<and> length (gameObjects w') = 10
        \<and> (\<forall>r\<in>set (gameObjects w').
              t_size (heap w' r) = 1 / 10
              \<and> - 1 + 1 / 10 \<le> t_x (heap w' r) \<and> t_x (heap w' r) \<le> 1 - 1 / 10
              \<and> - 1 + 1 / 10 \<le> t_y (heap w' r) \<and> t_y (heap w' r) \<le> 1 - 1 / 10))"
  using spawn_ten_in_bounds [of demoDraws "emptyModel 800 700"] demoDraws_valid by simp

section \<open>Claim C9: the win check\<close>

text \<open>
  Claim C9. On every tick the model the loop driver consults is the win check applied
  to the result of collision resolution; if exactly one entity that is not red remains
  in the collection after collision resolution, the terminal state is WON and the driver
  requests no further frame. In a well-formed world that one entity is the player.
\<close>

theorem win_check_after_collisions:
  assumes "gameLoop c now = Inr (c', rq)"
  shows "\<exists>w1. updatePlayer (model (timeoutCheck c now)) = Inr w1
     \<and> model c' = checkGameOver (checkCollisions w1)
     \<and> rq = (gameState (model c') = Playing)
     \<and> (length (filter (\<lambda>obj. \<not> isRed (t_color (heap w1 obj))) (gameObjects (checkCollisions w1))) = 1
          \<longrightarrow> gameState (model c') = Won \<and> \<not> rq
              \<and> (wellFormed (model c) \<longrightarrow>
                   map Some (filter (\<lambda>obj. \<not> isRed (t_color (heap w1 obj))) (gameObjects (checkCollisions w1)))
                     = [player (model c)]))"
proof -
  from assms obtain w1 where w1: "updatePlayer (model (timeoutCheck c now)) = Inr w1"
    and c': "model c' = checkGameOver (checkCollisions w1)"
    and rq: "rq = (gameState (model c') = Playing)"
    by (auto simp: gameLoop_Inr update_Inr)
  let ?nr = "filter (\<lambda>obj. \<not> isRed (t_color (heap w1 obj))) (gameObjects (checkCollisions w1))"
  have won: "gameState (model c') = Won \<and> \<not> rq" if "length ?nr = 1"
    using that by (simp add: rq c' checkGameOver_state)
  have pl: "map Some ?nr = [player (model c)]" if one: "length ?nr = 1" and wf: "wellFormed (model c)"
  proof -
    from timeoutCheck_model [of c now] wf
    have wft: "wellFormed (model (timeoutCheck c now))"
      and plt: "player (model (timeoutCheck c now)) = player (model c)"
      using wellFormed_cong [of "(model c)\<lparr>gameState := Lost\<rparr>" "model c"] by auto
    from wellFormed_updatePlayer [OF w1] wft have "wellFormed w1" by simp
    then have "wellFormed (checkCollisions w1)" by (rule wellFormed_checkCollisions)
    then obtain p h1 h2 cs where
      objs: "gameObjects (checkCollisions w1) = p # h1 # h2 # cs"
      and p: "player w1 = Some p" and g: "t_color (heap w1 p) = (0, 1, 0, 1)"
      and r: "isRed (t_color (heap w1 h1))" "isRed (t_color (heap w1 h2))"
      and cs: "\<forall>c\<in>set cs. \<not> isRed (t_color (heap w1 c))"
      by (auto simp: wellFormed_iff)
    from cs have "filter (\<lambda>obj. \<not> isRed (t_color (heap w1 obj))) cs = cs"
      by (simp add: filter_id_conv)
    with g r have nr: "?nr = p # cs" by (simp add: objs)
    with one have "cs = []" by simp
    moreover from w1 plt have "player w1 = player (model c)" by (auto simp: updatePlayer_Inr)
    ultimately show ?thesis using nr p by simp
  qed
  show ?thesis
  proof (intro exI [of _ w1] conjI impI)
    show "updatePlayer (model (timeoutCheck c now)) = Inr w1" by (rule w1)
    show "model c' = checkGameOver (checkCollisions w1)" by (rule c')
    show "rq = (gameState (model c') = Playing)" by (rule rq)
    show "gameState (model c') = Won" if "length ?nr = 1" using won [OF that] by simp
    show "\<not> rq" if "length ?nr = 1" using won [OF that] by simp
    show "map Some ?nr = [player (model c)]" if "length ?nr = 1" "wellFormed (model c)"
      using pl [OF that] .
  qed
qed

theorem win_check_after_collisions_witness:
  "gameLoop demoRound 48 = Inr (demoRound\<lparr>model := demoEnd\<rparr>, False)
   \<and> updatePlayer (model (timeoutCheck demoRound 48)) = Inr demoMoved
   \<and> wellFormed (model demoRound)
   \<and> length (filter (\<lambda>obj. \<not> isRed (t_color (heap demoMoved obj)))
         (gameObjects (checkCollisions demoMoved))) = 1
   \<and> gameState (model (demoRound\<lparr>model := demoEnd\<rparr>)) = Won
   \<and> map Some (filter (\<lambda>obj. \<not> isRed (t_color (heap demoMoved obj)))
         (gameObjects (checkCollisions demoMoved))) = [player (model demoRound)]"
proof -
  have g: "gameLoop demoRound 48 = Inr (demoRound\<lparr>model := demoEnd\<rparr>, False)"
    by (simp add: gameLoop_def timeoutCheck_def remainingTime_def demoRound_def demo_end demoEnd_def)
  have u: "updatePlayer (model (timeoutCheck demoRound 48)) = Inr demoMoved"
    by (simp add: timeoutCheck_def remainingTime_def demoRound_def demo_move)
  have wf: "wellFormed (model demoRound)"
    by (simp add: demoRound_def demoWorld_wellFormed)
  have c: "checkCollisions demoMoved
      = demoMoved\<lparr>gameState := Lost, score := 70, gameObjects := [10, 11, 12]\<rparr>"
    by (simp add: checkCollisions_def demo_pass)
  have one: "length (filter (\<lambda>obj. \<not> isRed (t_color (heap demoMoved obj)))
         (gameObjects (checkCollisions demoMoved))) = 1"
    by (simp add: c) (simp add: demoMoved_def demoWorld_def)
  from win_check_after_collisions [OF g] u one wf
  have "gameState (model (demoRound\<lparr>model := demoEnd\<rparr>)) = Won
     \<and> map Some (filter (\<lambda>obj. \<not> isRed (t_color (heap demoMoved obj)))
         (gameObjects (checkCollisions demoMoved))) = [player (model demoRound)]"
    by auto
  with g u wf one show ?thesis by simp
qed

section \<open>Claim C10: symmetry of the collision test\<close>

text \<open>
  Claim C10. The collision test is symmetric: for every pair of entities \<open>a\<close> and
  \<open>b\<close> of a round's collection, \<open>isColliding a b\<close> and \<open>isColliding b a\<close> agree.
\<close>

theorem isColliding_symmetric:
  assumes "list_all unitDraw rs" and "68 \<le> length rs" and "play rs t0 t1 es = Inr (c, rq)"
    and "a \<in> set (gameObjects (model c))" and "b \<in> set (gameObjects (model c))"
  shows "isColliding (heap (model c) a) (heap (model c) b)
       = isColliding (heap (model c) b) (heap (model c) a)"
proof -
  from play_uniformSize [OF assms(1-3)] assms(4,5)
  have "t_size (heap (model c) a) = 1 / 10" "t_size (heap (model c) b) = 1 / 10"
    by (auto simp: uniformSize_def list_all_iff size0_def)
  then show ?thesis
    by (intro isColliding_same_size) simp
qed

theorem isColliding_symmetric_witness:
  "list_all unitDraw demoDraws \<and> 68 \<le> length demoDraws
   \<and> play demoDraws 0 16 [Frame 32, KeyDown ''ArrowUp'', KeyDown ''ArrowRight''] = Inr (demoRound, True)
   \<and> 10 \<in> set (gameObjects (model demoRound)) \<and> 16 \<in> set (gameObjects (model demoRound))
   \<and> isColliding (heap (model demoRound) 10) (heap (model demoRound) 16)
       = isColliding (heap (model demoRound) 16) (heap (model demoRound) 10)"
proof -
  have m: "10 \<in> set (gameObjects (model demoRound))" "16 \<in> set (gameObjects (model demoRound))"
    by (simp_all add: demoRound_def demoWorld_def)
  have l: "68 \<le> length demoDraws" by (simp add: demoDraws_valid)
  from isColliding_symmetric [OF demoDraws_valid(1) l demo_reach m] demoDraws_valid(1) l demo_reach m
  show ?thesis by simp
qed

end
